theory Spec2Isabelle
  imports Main
begin

section \<open>Data model of the session server (server.js)\<close>

text \<open>
  A player object of \<^verbatim>\<open>server.js\<close>. The field \<^verbatim>\<open>id\<close> is called \<open>playerId\<close> here
  (the name it has on the wire), since \<open>id\<close> is the identity function of HOL. The
  socket field \<^verbatim>\<open>ws\<close> is the connection itself and is not a field of the model: a
  connection is identified with the id of its \<^verbatim>\<open>currentPlayer\<close>, which \<^verbatim>\<open>makeId\<close>
  generates as a unique id. A \<^verbatim>\<open>color\<close> is whatever string the join request carried;
  \<open>None\<close> is JavaScript's \<^verbatim>\<open>undefined\<close>.
\<close>

record player =
  playerId :: string
  name :: string
  color :: "string option"
  ready :: bool
  positions :: "int list"

text \<open>
  The room object of \<^verbatim>\<open>createRoom\<close>. The field \<^verbatim>\<open>id\<close> is called \<open>roomId\<close>. Numbers are
  integers; \<open>currentRoll = 0\<close> is the value the code stores when no roll is pending.
\<close>

record room =
  roomId :: string
  players :: "player list"
  turnIndex :: int
  currentRoll :: int
  consecutiveSixes :: int
  gameStarted :: bool

definition createRoom :: "string \<Rightarrow> room" where
  "createRoom rid =
     \<lparr>roomId = rid, players = [], turnIndex = 0, currentRoll = 0,
      consecutiveSixes = 0, gameStarted = False\<rparr>"

subsection \<open>JavaScript primitives\<close>

text \<open>
  \<^verbatim>\<open>xs[i]\<close> for a number \<open>i\<close>: \<open>None\<close> is \<^verbatim>\<open>undefined\<close>, the value of a read outside
  the array.
\<close>

definition nth_opt :: "'a list \<Rightarrow> int \<Rightarrow> 'a option" where
  "nth_opt xs i = (if 0 \<le> i \<and> i < int (length xs) then Some (xs ! nat i) else None)"

text \<open>
  \<^verbatim>\<open>a % b\<close> on integers with \<open>b \<noteq> 0\<close>: the remainder takes the sign of the dividend.
  Both uses in the source have a positive divisor (52, and a length checked to be
  non-zero).
\<close>

definition js_rem :: "int \<Rightarrow> int \<Rightarrow> int" where
  "js_rem a b = sgn a * (\<bar>a\<bar> mod \<bar>b\<bar>)"

text \<open>
  \<^verbatim>\<open>a === b\<close> on numbers where \<open>None\<close> stands for \<^verbatim>\<open>NaN\<close>, which equals nothing.
\<close>

definition js_eq :: "int option \<Rightarrow> int option \<Rightarrow> bool" where
  "js_eq a b = (case a of None \<Rightarrow> False | Some x \<Rightarrow> (case b of None \<Rightarrow> False | Some y \<Rightarrow> x = y))"

text \<open>An uncaught exception of a handler: reading \<^verbatim>\<open>.id\<close> or \<^verbatim>\<open>.positions\<close> of \<^verbatim>\<open>undefined\<close>.\<close>

datatype error = TypeError

subsection \<open>Messages of the wire protocol\<close>

text \<open>The roster entry sent in \<^verbatim>\<open>joined\<close> and \<^verbatim>\<open>player_list\<close>: id, name, color, ready.\<close>

type_synonym player_view = "string \<times> string \<times> string option \<times> bool"

datatype message =
    Error_message string
  | Joined string "string option" "player_view list"
  | Player_list "player_view list"
  | Game_started string "(string \<times> int list) list"
  | Roll_result string int "int list"
  | State_update string "int list" int int bool bool
  | Turn string
  | Player_finished string

text \<open>
  What a handler does besides changing the room: \<^verbatim>\<open>ws.send\<close> to the requesting
  connection, \<^verbatim>\<open>broadcast\<close> to the room, and \<^verbatim>\<open>rooms.delete\<close> on the registry.
\<close>

datatype effect = Send message | Broadcast message | Rooms_delete string

definition player_views :: "player list \<Rightarrow> player_view list" where
  "player_views ps = map (\<lambda>p. (playerId p, name p, color p, ready p)) ps"

section \<open>Board geometry\<close>

definition SAFE_INDICES :: "int list" where
  "SAFE_INDICES = [0, 8, 13, 21, 26, 34, 39, 47]"

text \<open>
  \<^verbatim>\<open>COLOR_START[color]\<close> and the local table \<^verbatim>\<open>colorOffset[color]\<close>: \<open>None\<close> when the
  color is no key of the table, where the arithmetic of the source yields \<^verbatim>\<open>NaN\<close>.
\<close>

definition COLOR_START :: "string option \<Rightarrow> int option" where
  "COLOR_START c =
     (case c of None \<Rightarrow> None
      | Some s \<Rightarrow> map_of [(''red'', 0), (''green'', 13), (''yellow'', 26), (''blue'', 39)] s)"

definition colorOffset :: "string option \<Rightarrow> int option" where
  "colorOffset c =
     (case c of None \<Rightarrow> None
      | Some s \<Rightarrow> map_of [(''red'', 0), (''green'', 10), (''yellow'', 20), (''blue'', 30)] s)"

definition computeGlobalIndex :: "string option \<Rightarrow> int \<Rightarrow> int option" where
  "computeGlobalIndex c pos =
     (if pos < 0 then Some (- 1)
      else if pos \<le> 51 then
        (case COLOR_START c of None \<Rightarrow> None | Some start \<Rightarrow> Some (js_rem (start + pos) 52))
      else
        (case colorOffset c of None \<Rightarrow> None | Some off \<Rightarrow> Some (100 + off + (pos - 52))))"

text \<open>\<^verbatim>\<open>SAFE_INDICES.includes(g)\<close>; the list holds no \<^verbatim>\<open>NaN\<close>.\<close>

definition isSafe :: "int option \<Rightarrow> bool" where
  "isSafe g = (case g of None \<Rightarrow> False | Some t \<Rightarrow> t \<in> set SAFE_INDICES)"

section \<open>Move engine\<close>

text \<open>The body of the loop of \<^verbatim>\<open>computeMovableTokens\<close>: is the token at \<open>pos\<close> pushed?\<close>

definition tokenMovable :: "int \<Rightarrow> int \<Rightarrow> bool" where
  "tokenMovable pos roll =
     (if pos = - 1 then roll = 6
      else let newPos = pos + roll in
        if pos < 52 then (if newPos \<le> 51 then True else newPos - 51 \<le> 6)
        else newPos \<le> 57)"

text \<open>The loop over \<^verbatim>\<open>positions\<close>, from index \<open>i\<close> on.\<close>

fun movableFrom :: "int \<Rightarrow> int list \<Rightarrow> int \<Rightarrow> int list" where
  "movableFrom i [] roll = []"
| "movableFrom i (pos # rest) roll =
     (if tokenMovable pos roll then i # movableFrom (i + 1) rest roll
      else movableFrom (i + 1) rest roll)"

definition computeMovableTokens :: "room \<Rightarrow> player \<Rightarrow> int \<Rightarrow> int list" where
  "computeMovableTokens r p roll = movableFrom 0 (positions p) roll"

definition finishedCount :: "player \<Rightarrow> nat" where
  "finishedCount p = length (filter (\<lambda>pos. pos = 57) (positions p))"

text \<open>
  The \<^verbatim>\<open>while\<close> loop of \<^verbatim>\<open>nextTurn\<close>: \<open>Inr (Some idx)\<close> when it assigns \<^verbatim>\<open>turnIndex\<close>
  and returns, \<open>Inr None\<close> when it runs out ("all players finished; keep index").
\<close>

function nextTurn_loop :: "player list \<Rightarrow> int \<Rightarrow> nat \<Rightarrow> error + int option" where
  "nextTurn_loop ps idx iterations =
     (if iterations < length ps then
        (case nth_opt ps idx of
           None \<Rightarrow> Inl TypeError
         | Some p \<Rightarrow>
             if finishedCount p < 4 then Inr (Some idx)
             else nextTurn_loop ps (js_rem (idx + 1) (int (length ps))) (iterations + 1))
      else Inr None)"
  by pat_completeness auto
termination
  by (relation "measure (\<lambda>(ps, idx, iterations). length ps - iterations)") auto

declare nextTurn_loop.simps [simp del]

definition nextTurn :: "room \<Rightarrow> error + room" where
  "nextTurn r =
     (if length (players r) = 0 then Inr r
      else
        (case nextTurn_loop (players r) (js_rem (turnIndex r + 1) (int (length (players r)))) 0 of
           Inl e \<Rightarrow> Inl e
         | Inr None \<Rightarrow> Inr r
         | Inr (Some idx) \<Rightarrow> Inr (r\<lparr>turnIndex := idx\<rparr>)))"

text \<open>
  The test of the inner \<^verbatim>\<open>forEach\<close> of \<^verbatim>\<open>performMove\<close>: the token of \<open>opponent\<close> at
  \<open>oppPos\<close> is sent home when \<open>mover\<close> lands on \<open>newPos\<close>.
\<close>

definition isCaptured :: "player \<Rightarrow> int \<Rightarrow> player \<Rightarrow> int \<Rightarrow> bool" where
  "isCaptured mover newPos opponent oppPos =
     (newPos \<le> 51 \<and> playerId opponent \<noteq> playerId mover \<and> oppPos \<ge> 0 \<and> oppPos \<le> 51 \<and>
      js_eq (computeGlobalIndex (color opponent) oppPos) (computeGlobalIndex (color mover) newPos) \<and>
      \<not> isSafe (computeGlobalIndex (color mover) newPos))"

definition moveTarget :: "int \<Rightarrow> int \<Rightarrow> int" where
  "moveTarget pos roll =
     (if pos = - 1 then 0
      else let newPos = pos + roll in
        if pos < 52 \<and> newPos > 51 then 51 + (newPos - 51) else newPos)"

text \<open>
  \<^verbatim>\<open>performMove(room, player, tokenIndex, roll)\<close>. The object \<^verbatim>\<open>player\<close> is given by its
  index \<open>pi\<close> in the roster. The only call passes a \<open>tokenIndex\<close> that
  \<^verbatim>\<open>computeMovableTokens\<close> returned, an index of \<^verbatim>\<open>positions\<close> (lemma
  \<open>computeMovableTokens_range\<close>). The result is the room, \<^verbatim>\<open>captured\<close> and
  \<^verbatim>\<open>finishedNow\<close>.
\<close>

definition performMove :: "room \<Rightarrow> nat \<Rightarrow> int \<Rightarrow> int \<Rightarrow> room \<times> bool \<times> bool" where
  "performMove r pi tokenIndex roll =
     (let mover = players r ! pi;
          newPos = moveTarget (positions mover ! nat tokenIndex) roll;
          ps1 = map (\<lambda>opponent. opponent\<lparr>positions :=
                   map (\<lambda>oppPos. if isCaptured mover newPos opponent oppPos then - 1 else oppPos)
                     (positions opponent)\<rparr>) (players r);
          captured = list_ex (\<lambda>opponent. list_ex (isCaptured mover newPos opponent) (positions opponent))
                       (players r);
          ps2 = ps1[pi := (ps1 ! pi)\<lparr>positions := (positions (ps1 ! pi))[nat tokenIndex := newPos]\<rparr>]
      in (r\<lparr>players := ps2\<rparr>, captured, newPos = 57))"

section \<open>Message handlers\<close>

text \<open>Decimal digits of a number, for the default name \<^verbatim>\<open>Player ${n + 1}\<close>.\<close>

fun show_nat :: "nat \<Rightarrow> string" where
  "show_nat n =
     (if n < 10 then [''0123456789'' ! n]
      else show_nat (n div 10) @ [''0123456789'' ! (n mod 10)])"

declare show_nat.simps [simp del]

definition colorOrder :: "string list" where
  "colorOrder = [''red'', ''green'', ''yellow'', ''blue'']"

text \<open>
  The color resolution of the join handler. The requested color is \<open>None\<close> when the
  request has none; \<^verbatim>\<open>!color\<close> also holds for the empty string. The result is \<open>None\<close>
  when \<^verbatim>\<open>find\<close> returns \<^verbatim>\<open>undefined\<close>.
\<close>

definition chooseColor :: "string option list \<Rightarrow> string option \<Rightarrow> string option" where
  "chooseColor takenColors c =
     (if c = None \<or> c = Some [] \<or> c \<in> set takenColors
      then find (\<lambda>k. Some k \<notin> set takenColors) colorOrder
      else c)"

text \<open>
  The \<^verbatim>\<open>join\<close> handler on the room \<^verbatim>\<open>getRoom(roomId)\<close> returned; \<open>newId\<close> is the value
  of \<^verbatim>\<open>makeId()\<close>.
\<close>

definition join_handler :: "room \<Rightarrow> string option \<Rightarrow> string option \<Rightarrow> string \<Rightarrow> room \<times> effect list" where
  "join_handler r nm c newId =
     (if gameStarted r then (r, [Send (Error_message ''Game already started for this room'')])
      else
        let takenColors = map color (players r);
            chosenColor = chooseColor takenColors c;
            p = \<lparr>playerId = newId,
                 name = (case nm of None \<Rightarrow> ''Player '' @ show_nat (length (players r) + 1)
                         | Some s \<Rightarrow> if s = [] then ''Player '' @ show_nat (length (players r) + 1) else s),
                 color = chosenColor, ready = False, positions = [- 1, - 1, - 1, - 1]\<rparr>;
            r' = r\<lparr>players := players r @ [p]\<rparr>
        in (r', [Send (Joined newId chosenColor (player_views (players r'))),
                 Broadcast (Player_list (player_views (players r')))]))"

text \<open>
  The handlers below run only for a connection that has joined (\<^verbatim>\<open>currentRoom &&
  currentPlayer\<close>); \<open>sender\<close> is the id of its \<^verbatim>\<open>currentPlayer\<close>.
\<close>

definition ready_handler :: "room \<Rightarrow> string \<Rightarrow> room \<times> effect list" where
  "ready_handler r sender =
     (let r' = r\<lparr>players := map (\<lambda>p. if playerId p = sender then p\<lparr>ready := True\<rparr> else p) (players r)\<rparr>
      in (r', [Broadcast (Player_list (player_views (players r')))]))"

definition start_handler :: "room \<Rightarrow> string \<Rightarrow> room \<times> effect list" where
  "start_handler r sender =
     (if gameStarted r then (r, [])
      else if length (players r) < 2 then
        (r, [Send (Error_message ''Need at least 2 players to start'')])
      else if \<not> list_all ready (players r) then
        (r, [Send (Error_message ''All players must be ready'')])
      else
        (r\<lparr>gameStarted := True, turnIndex := 0, currentRoll := 0, consecutiveSixes := 0\<rparr>,
         [Broadcast (Game_started (playerId (players r ! 0))
            (map (\<lambda>p. (playerId p, positions p)) (players r)))]))"

text \<open>
  The \<^verbatim>\<open>roll\<close> handler; \<open>die\<close> is the value of \<^verbatim>\<open>Math.floor(Math.random() * 6) + 1\<close>.
  Past the turn check the object \<^verbatim>\<open>currentPlayer\<close> is the roster entry at
  \<^verbatim>\<open>turnIndex\<close>, the one player with that id.
\<close>

definition roll_handler :: "room \<Rightarrow> string \<Rightarrow> int \<Rightarrow> error + room \<times> effect list" where
  "roll_handler r sender die =
     (case nth_opt (players r) (turnIndex r) of
        None \<Rightarrow> Inl TypeError
      | Some currentTurnPlayer \<Rightarrow>
          if playerId currentTurnPlayer \<noteq> sender then Inr (r, [])
          else
            let r1 = r\<lparr>currentRoll := die\<rparr>;
                r2 = (if die = 6 then r1\<lparr>consecutiveSixes := consecutiveSixes r1 + 1\<rparr>
                      else r1\<lparr>consecutiveSixes := 0\<rparr>);
                moves = computeMovableTokens r2 currentTurnPlayer die;
                mustPass = (length moves = 0);
                skipTurn = (die = 6 \<and> consecutiveSixes r2 \<ge> 3);
                r3 = (if skipTurn then r2\<lparr>consecutiveSixes := 0\<rparr> else r2);
                out1 = Broadcast (Roll_result sender die moves)
            in if skipTurn \<or> mustPass then
                 (case nextTurn r3 of
                    Inl e \<Rightarrow> Inl e
                  | Inr r4 \<Rightarrow>
                      (case nth_opt (players r4) (turnIndex r4) of
                         None \<Rightarrow> Inl TypeError
                       | Some p \<Rightarrow> Inr (r4, [out1, Broadcast (Turn (playerId p))])))
               else Inr (r3, [out1]))"

text \<open>
  The \<^verbatim>\<open>move\<close> handler. \<^verbatim>\<open>available.includes(tokenIndex)\<close> holds for a number among
  the indices only, so the requested index is an integer.
\<close>

definition move_handler :: "room \<Rightarrow> string \<Rightarrow> int \<Rightarrow> error + room \<times> effect list" where
  "move_handler r sender tokenIndex =
     (case nth_opt (players r) (turnIndex r) of
        None \<Rightarrow> Inl TypeError
      | Some currentTurnPlayer \<Rightarrow>
          if playerId currentTurnPlayer \<noteq> sender then Inr (r, [])
          else
            let roll = currentRoll r;
                available = computeMovableTokens r currentTurnPlayer roll
            in if tokenIndex \<notin> set available then Inr (r, [])
               else
                 (case performMove r (nat (turnIndex r)) tokenIndex roll of
                    (r1, captured, finishedNow) \<Rightarrow>
                      let currentPlayer = players r1 ! nat (turnIndex r1);
                          out1 = [Broadcast (State_update sender (positions currentPlayer)
                                    tokenIndex roll captured finishedNow)];
                          out2 = (if finishedCount currentPlayer = 4
                                  then [Broadcast (Player_finished sender)] else []);
                          extraTurn = ((roll = 6 \<and> consecutiveSixes r1 > 0) \<or> captured \<or> finishedNow)
                      in (case (if \<not> extraTurn then nextTurn (r1\<lparr>consecutiveSixes := 0\<rparr>) else Inr r1) of
                            Inl e \<Rightarrow> Inl e
                          | Inr r2 \<Rightarrow>
                              let r3 = r2\<lparr>currentRoll := 0\<rparr>
                              in (case nth_opt (players r3) (turnIndex r3) of
                                    None \<Rightarrow> Inl TypeError
                                  | Some p \<Rightarrow> Inr (r3, out1 @ out2 @ [Broadcast (Turn (playerId p))])))))"

text \<open>The \<^verbatim>\<open>close\<close> handler of a connection that has joined.\<close>

definition close_handler :: "room \<Rightarrow> string \<Rightarrow> room \<times> effect list" where
  "close_handler r sender =
     (let r1 = r\<lparr>players := filter (\<lambda>p. playerId p \<noteq> sender) (players r)\<rparr>;
          r2 = (if turnIndex r1 \<ge> int (length (players r1)) then r1\<lparr>turnIndex := 0\<rparr> else r1)
      in (r2, Broadcast (Player_list (player_views (players r2))) #
              (if length (players r2) = 0 then [Rooms_delete (roomId r2)] else [])))"

section \<open>Requests and reachable rooms\<close>

datatype event =
    Join "string option" "string option" string
  | Ready string
  | Start string
  | Roll string int
  | Move string int
  | Close string

fun on_event :: "room \<Rightarrow> event \<Rightarrow> error + room \<times> effect list" where
  "on_event r (Join nm c newId) = Inr (join_handler r nm c newId)"
| "on_event r (Ready sender) = Inr (ready_handler r sender)"
| "on_event r (Start sender) = Inr (start_handler r sender)"
| "on_event r (Roll sender die) = roll_handler r sender die"
| "on_event r (Move sender tokenIndex) = move_handler r sender tokenIndex"
| "on_event r (Close sender) = Inr (close_handler r sender)"

text \<open>
  What the environment guarantees of a request: \<^verbatim>\<open>makeId\<close> returns an id no player of
  the room has, and the die is one of 1..6.
\<close>

fun valid_event :: "room \<Rightarrow> event \<Rightarrow> bool" where
  "valid_event r (Join nm c newId) = (newId \<notin> set (map playerId (players r)))"
| "valid_event r (Roll sender die) = (1 \<le> die \<and> die \<le> 6)"
| "valid_event r _ = True"

inductive reachable :: "room \<Rightarrow> bool" where
  reachable_init: "reachable (createRoom rid)"
| reachable_step:
    "reachable r \<Longrightarrow> valid_event r ev \<Longrightarrow> on_event r ev = Inr (r', outs) \<Longrightarrow> reachable r'"

text \<open>Running a list of requests from a room; \<open>None\<close> when a handler throws or a
  request is not one the environment can make.\<close>

fun run :: "room \<Rightarrow> event list \<Rightarrow> room option" where
  "run r [] = Some r"
| "run r (ev # evs) =
     (if valid_event r ev
      then (case on_event r ev of Inl e \<Rightarrow> None | Inr (r', outs) \<Rightarrow> run r' evs)
      else None)"

section \<open>The turn-passing rule in the words of the specification\<close>

text \<open>
  "Passing = advance \<^verbatim>\<open>turnIndex\<close> to the next player who still has at least one
  unfinished token (skip fully finished players cyclically)": the seat \<open>t + k\<close> (modulo
  the number of seats) for the least \<open>k\<close> in \<open>1..n\<close> whose player is active, and \<open>t\<close>
  itself when no seat is. A player is active as the source counts it: fewer than four
  positions equal to 57. This definition is compared with \<open>nextTurn\<close> in lemma
  \<open>nextTurn_next_active\<close>.
\<close>

definition spec_next_active :: "player list \<Rightarrow> int \<Rightarrow> int" where
  "spec_next_active ps t =
     (case find (\<lambda>k. finishedCount (ps ! nat ((t + int k) mod int (length ps))) < 4)
             [1..<Suc (length ps)] of
        None \<Rightarrow> t
      | Some k \<Rightarrow> (t + int k) mod int (length ps))"

section \<open>Auxiliary notions\<close>

text \<open>The position of token \<open>i\<close> of the player with id \<open>pid\<close>, if the room has both.\<close>

definition tokenPos :: "room \<Rightarrow> string \<Rightarrow> int \<Rightarrow> int option" where
  "tokenPos r pid i =
     (case find (\<lambda>p. playerId p = pid) (players r) of
        None \<Rightarrow> None
      | Some p \<Rightarrow> nth_opt (positions p) i)"

text \<open>The turn pointer is a seat of the roster, or 0 (the value it has in an empty room).\<close>

definition turn_ok :: "room \<Rightarrow> bool" where
  "turn_ok r = (0 \<le> turnIndex r \<and> (turnIndex r < int (length (players r)) \<or> turnIndex r = 0))"

text \<open>
  What holds of every room the handlers can produce: the turn pointer is in place, a
  started game has only ready players, and the stored roll is 0 or a die value.
\<close>

definition room_inv :: "room \<Rightarrow> bool" where
  "room_inv r = (turn_ok r \<and> (gameStarted r \<longrightarrow> list_all ready (players r)) \<and>
                 0 \<le> currentRoll r \<and> currentRoll r \<le> 6)"

section \<open>Example games\<close>

definition alice :: player where
  "alice = \<lparr>playerId = ''a'', name = ''A'', color = Some ''red'', ready = True,
            positions = [- 1, - 1, - 1, - 1]\<rparr>"

definition bob :: player where
  "bob = \<lparr>playerId = ''b'', name = ''B'', color = Some ''green'', ready = True,
          positions = [- 1, - 1, - 1, - 1]\<rparr>"

text \<open>The first player has joined.\<close>

definition waiting_room :: room where
  "waiting_room =
     \<lparr>roomId = ''r'', players = [alice\<lparr>ready := False\<rparr>], turnIndex = 0, currentRoll = 0,
      consecutiveSixes = 0, gameStarted = False\<rparr>"

text \<open>Two players join, get ready and start.\<close>

definition lobby_events :: "event list" where
  "lobby_events =
     [Join (Some ''A'') (Some ''red'') ''a'', Join (Some ''B'') (Some ''green'') ''b'',
      Ready ''a'', Ready ''b'', Start ''a'']"

definition started_room :: room where
  "started_room =
     \<lparr>roomId = ''r'', players = [alice, bob], turnIndex = 0, currentRoll = 0,
      consecutiveSixes = 0, gameStarted = True\<rparr>"

text \<open>The first player rolls a 6 and enters token 0: an extra turn, no roll pending.\<close>

definition entered_room :: room where
  "entered_room =
     \<lparr>roomId = ''r'', players = [alice\<lparr>positions := [0, - 1, - 1, - 1]\<rparr>, bob], turnIndex = 0,
      currentRoll = 0, consecutiveSixes = 1, gameStarted = True\<rparr>"

text \<open>A second 6 enters token 1.\<close>

definition two_sixes_room :: room where
  "two_sixes_room =
     \<lparr>roomId = ''r'', players = [alice\<lparr>positions := [0, 0, - 1, - 1]\<rparr>, bob], turnIndex = 0,
      currentRoll = 0, consecutiveSixes = 2, gameStarted = True\<rparr>"

text \<open>A third 6: the streak is busted and the turn is with the second player.\<close>

definition busted_room :: room where
  "busted_room =
     \<lparr>roomId = ''r'', players = [alice\<lparr>positions := [0, 0, - 1, - 1]\<rparr>, bob], turnIndex = 1,
      currentRoll = 6, consecutiveSixes = 0, gameStarted = True\<rparr>"

text \<open>
  One lap of the first player's token 0 by 6, 6 and 5, after which the second player
  rolls a 1 and has no move.
\<close>

definition lap_events :: "event list" where
  "lap_events =
     [Roll ''a'' 6, Move ''a'' 0, Roll ''a'' 6, Move ''a'' 0, Roll ''a'' 5, Move ''a'' 0,
      Roll ''b'' 1]"

text \<open>After the lobby, three laps and two more sixes token 0 of the first player is home.\<close>

definition finished_token_room :: room where
  "finished_token_room =
     \<lparr>roomId = ''r'', players = [alice\<lparr>positions := [57, - 1, - 1, - 1]\<rparr>, bob], turnIndex = 0,
      currentRoll = 0, consecutiveSixes = 2, gameStarted = True\<rparr>"

text \<open>Four players have joined and taken the four colors; the game has not started.\<close>

definition full_events :: "event list" where
  "full_events =
     [Join (Some ''A'') (Some ''red'') ''a'', Join (Some ''B'') (Some ''green'') ''b'',
      Join (Some ''C'') (Some ''yellow'') ''c'', Join (Some ''D'') (Some ''blue'') ''d'']"

definition full_room :: room where
  "full_room =
     \<lparr>roomId = ''r'',
      players = [alice\<lparr>ready := False\<rparr>, bob\<lparr>ready := False\<rparr>,
                 \<lparr>playerId = ''c'', name = ''C'', color = Some ''yellow'', ready = False,
                  positions = [- 1, - 1, - 1, - 1]\<rparr>,
                 \<lparr>playerId = ''d'', name = ''D'', color = Some ''blue'', ready = False,
                  positions = [- 1, - 1, - 1, - 1]\<rparr>],
      turnIndex = 0, currentRoll = 0, consecutiveSixes = 0, gameStarted = False\<rparr>"

text \<open>
  Red stands on its relative cell 10 and on 4; green stands on its relative cells 1 and
  47, which are the global cells 14 and 8. Red has rolled a 4.
\<close>

definition contested_room :: room where
  "contested_room =
     \<lparr>roomId = ''r'',
      players = [alice\<lparr>positions := [10, 4, - 1, - 1]\<rparr>, bob\<lparr>positions := [1, 47, - 1, - 1]\<rparr>],
      turnIndex = 0, currentRoll = 4, consecutiveSixes = 0, gameStarted = True\<rparr>"

section \<open>Basic facts\<close>

lemma js_rem_nonneg: "0 \<le> a \<Longrightarrow> 0 < b \<Longrightarrow> js_rem a b = a mod b"
  by (cases "a = 0") (simp_all add: js_rem_def)

lemma nth_opt_Some: "0 \<le> i \<Longrightarrow> i < int (length xs) \<Longrightarrow> nth_opt xs i = Some (xs ! nat i)"
  by (simp add: nth_opt_def)

lemma nth_opt_SomeD: "nth_opt xs i = Some x \<Longrightarrow> 0 \<le> i \<and> i < int (length xs) \<and> x = xs ! nat i"
  by (auto simp: nth_opt_def split: if_splits)

subsection \<open>\<open>nextTurn\<close> passes the turn to the next active player\<close>

lemma nextTurn_loop_find:
  assumes "0 \<le> t" "k \<le> length ps" "ps \<noteq> []"
  shows "nextTurn_loop ps ((t + 1 + int k) mod int (length ps)) k =
         Inr (map_option (\<lambda>j. (t + int j) mod int (length ps))
               (find (\<lambda>j. finishedCount (ps ! nat ((t + int j) mod int (length ps))) < 4)
                  [Suc k..<Suc (length ps)]))"
  using assms
proof (induction "length ps - k" arbitrary: k)
  case 0
  then have "k = length ps" by simp
  then show ?case by (simp add: nextTurn_loop.simps)
next
  case (Suc d)
  let ?n = "int (length ps)"
  let ?idx = "(t + 1 + int k) mod ?n"
  from Suc have k: "k < length ps" by simp
  have n: "0 < ?n" using Suc.prems by simp
  have r1: "0 \<le> ?idx" "?idx < ?n" using n by simp_all
  have upt: "[Suc k..<Suc (length ps)] = Suc k # [Suc (Suc k)..<Suc (length ps)]"
    using k by (simp add: upt_conv_Cons)
  have idx: "?idx = (t + int (Suc k)) mod ?n" by (simp add: algebra_simps)
  have nxt: "js_rem (?idx + 1) ?n = (t + 1 + int (Suc k)) mod ?n"
  proof -
    have "js_rem (?idx + 1) ?n = (?idx + 1) mod ?n"
      using r1 n by (intro js_rem_nonneg) simp_all
    also have "\<dots> = (t + 1 + int k + 1) mod ?n" by (simp add: mod_add_left_eq)
    finally show ?thesis by (simp add: algebra_simps)
  qed
  have IH: "nextTurn_loop ps ((t + 1 + int (Suc k)) mod ?n) (Suc k) =
         Inr (map_option (\<lambda>j. (t + int j) mod ?n)
               (find (\<lambda>j. finishedCount (ps ! nat ((t + int j) mod ?n)) < 4)
                  [Suc (Suc k)..<Suc (length ps)]))"
    using Suc.hyps(1)[of "Suc k"] Suc.hyps(2) Suc.prems k by simp
  show ?case
    apply (subst nextTurn_loop.simps)
    apply (simp only: k if_True nth_opt_Some[OF r1] option.case nxt Suc_eq_plus1[symmetric] IH)
    apply (simp only: upt find.simps idx)
    apply simp
    done
qed

lemma nextTurn_next_active:
  assumes "0 \<le> turnIndex r" "turnIndex r < int (length (players r))"
  shows "nextTurn r = Inr (r\<lparr>turnIndex := spec_next_active (players r) (turnIndex r)\<rparr>)"
proof -
  let ?n = "int (length (players r))"
  have ne: "players r \<noteq> []" using assms by auto
  have "js_rem (turnIndex r + 1) ?n = (turnIndex r + 1 + int 0) mod ?n"
  proof -
    have "0 \<le> turnIndex r + 1" "0 < ?n" using assms by auto
    then show ?thesis by (simp add: js_rem_nonneg)
  qed
  then have "nextTurn_loop (players r) (js_rem (turnIndex r + 1) ?n) 0 =
      Inr (map_option (\<lambda>j. (turnIndex r + int j) mod ?n)
               (find (\<lambda>j. finishedCount (players r ! nat ((turnIndex r + int j) mod ?n)) < 4)
                  [Suc 0..<Suc (length (players r))]))"
    using nextTurn_loop_find[OF assms(1), of 0 "players r"] ne by simp
  then show ?thesis
    using ne by (simp add: nextTurn_def spec_next_active_def split: option.splits)
qed

lemma spec_next_active_range:
  assumes "0 \<le> t" "t < int (length ps)"
  shows "0 \<le> spec_next_active ps t \<and> spec_next_active ps t < int (length ps)"
proof -
  have "0 < int (length ps)" using assms by auto
  then have "\<And>k. 0 \<le> (t + int k) mod int (length ps) \<and> (t + int k) mod int (length ps) < int (length ps)"
    by simp
  then show ?thesis
    using assms unfolding spec_next_active_def by (simp split: option.splits)
qed

subsection \<open>The handlers, case by case\<close>

lemma performMove_fields:
  assumes "performMove r pi tokenIndex roll = (r1, captured, finishedNow)"
  shows "turnIndex r1 = turnIndex r" "currentRoll r1 = currentRoll r"
    "consecutiveSixes r1 = consecutiveSixes r" "gameStarted r1 = gameStarted r"
    "roomId r1 = roomId r" "length (players r1) = length (players r)"
  using assms by (auto simp: performMove_def Let_def)

lemma roll_handler_on_turn:
  assumes "nth_opt (players r) (turnIndex r) = Some p" "playerId p = sender"
  shows "roll_handler r sender die =
     (let skipTurn = (die = 6 \<and> consecutiveSixes r + 1 \<ge> 3);
          r3 = r\<lparr>currentRoll := die,
                 consecutiveSixes := (if die = 6 \<and> \<not> skipTurn then consecutiveSixes r + 1 else 0)\<rparr>;
          moves = computeMovableTokens r p die;
          t = spec_next_active (players r) (turnIndex r)
      in if skipTurn \<or> moves = []
         then Inr (r3\<lparr>turnIndex := t\<rparr>,
                   [Broadcast (Roll_result sender die moves),
                    Broadcast (Turn (playerId (players r ! nat t)))])
         else Inr (r3, [Broadcast (Roll_result sender die moves)]))"
proof -
  from assms(1) have rng: "0 \<le> turnIndex r" "turnIndex r < int (length (players r))"
    by (auto dest: nth_opt_SomeD)
  have nt: "\<And>r'. players r' = players r \<Longrightarrow> turnIndex r' = turnIndex r \<Longrightarrow>
      nextTurn r' = Inr (r'\<lparr>turnIndex := spec_next_active (players r) (turnIndex r)\<rparr>)"
    using nextTurn_next_active rng by metis
  have t: "nth_opt (players r) (spec_next_active (players r) (turnIndex r)) =
      Some (players r ! nat (spec_next_active (players r) (turnIndex r)))"
    using spec_next_active_range[OF rng] by (simp add: nth_opt_Some)
  show ?thesis
    using assms t by (simp add: roll_handler_def Let_def nt computeMovableTokens_def)
qed

lemma move_handler_on_turn:
  assumes "nth_opt (players r) (turnIndex r) = Some p" "playerId p = sender"
    and "tokenIndex \<in> set (computeMovableTokens r p (currentRoll r))"
    and "performMove r (nat (turnIndex r)) tokenIndex (currentRoll r) = (r1, captured, finishedNow)"
  shows "move_handler r sender tokenIndex =
     (let mover = players r1 ! nat (turnIndex r);
          out1 = [Broadcast (State_update sender (positions mover) tokenIndex (currentRoll r)
                    captured finishedNow)];
          out2 = (if finishedCount mover = 4 then [Broadcast (Player_finished sender)] else []);
          extraTurn = ((currentRoll r = 6 \<and> consecutiveSixes r > 0) \<or> captured \<or> finishedNow);
          t = (if extraTurn then turnIndex r else spec_next_active (players r1) (turnIndex r));
          r3 = (if extraTurn then r1\<lparr>currentRoll := 0\<rparr>
                else r1\<lparr>consecutiveSixes := 0, turnIndex := t, currentRoll := 0\<rparr>)
      in Inr (r3, out1 @ out2 @ [Broadcast (Turn (playerId (players r1 ! nat t)))]))"
proof -
  note f = performMove_fields[OF assms(4)]
  from assms(1) have rng: "0 \<le> turnIndex r" "turnIndex r < int (length (players r1))"
    by (auto dest: nth_opt_SomeD simp: f)
  have nt: "nextTurn (r1\<lparr>consecutiveSixes := 0\<rparr>) =
      Inr (r1\<lparr>consecutiveSixes := 0, turnIndex := spec_next_active (players r1) (turnIndex r)\<rparr>)"
    using nextTurn_next_active[of "r1\<lparr>consecutiveSixes := 0\<rparr>"] rng by (simp add: f)
  have t: "nth_opt (players r1) (spec_next_active (players r1) (turnIndex r)) =
      Some (players r1 ! nat (spec_next_active (players r1) (turnIndex r)))"
    using spec_next_active_range[OF rng] by (simp add: nth_opt_Some)
  have t0: "nth_opt (players r1) (turnIndex r) = Some (players r1 ! nat (turnIndex r))"
    using rng by (simp add: nth_opt_Some)
  show ?thesis
    using assms t t0 by (simp add: move_handler_def Let_def nt f computeMovableTokens_def)
qed

subsection \<open>The example games are reachable\<close>

lemma run_reachable: "reachable r \<Longrightarrow> run r evs = Some r' \<Longrightarrow> reachable r'"
proof (induction evs arbitrary: r)
  case Nil
  then show ?case by simp
next
  case (Cons ev evs)
  from Cons.prems(2) obtain r1 outs where
    v: "valid_event r ev" and s: "on_event r ev = Inr (r1, outs)" and rest: "run r1 evs = Some r'"
    by (auto split: if_splits sum.splits)
  from Cons.prems(1) v s have "reachable r1" by (rule reachable_step)
  then show ?case using rest by (rule Cons.IH)
qed

lemma run_waiting_room:
  "run (createRoom ''r'') [Join (Some ''A'') (Some ''red'') ''a''] = Some waiting_room"
  by code_simp

lemma run_started_room: "run (createRoom ''r'') lobby_events = Some started_room"
  by code_simp

lemma run_entered_room:
  "run (createRoom ''r'') (lobby_events @ [Roll ''a'' 6, Move ''a'' 0]) = Some entered_room"
  by code_simp

lemma run_two_sixes_room:
  "run (createRoom ''r'') (lobby_events @ [Roll ''a'' 6, Move ''a'' 0, Roll ''a'' 6, Move ''a'' 1])
     = Some two_sixes_room"
  by code_simp

lemma run_busted_room:
  "run (createRoom ''r'')
     (lobby_events @ [Roll ''a'' 6, Move ''a'' 0, Roll ''a'' 6, Move ''a'' 1, Roll ''a'' 6])
     = Some busted_room"
  by code_simp

lemma run_finished_token_room:
  "run (createRoom ''r'')
     (lobby_events @ lap_events @ lap_events @ lap_events @
      [Roll ''a'' 6, Move ''a'' 0, Roll ''a'' 6, Move ''a'' 0])
     = Some finished_token_room"
  by code_simp

lemma run_full_room: "run (createRoom ''r'') full_events = Some full_room"
  by code_simp

lemma reachable_waiting_room: "reachable waiting_room"
  using run_reachable[OF reachable_init run_waiting_room] .

lemma reachable_started_room: "reachable started_room"
  using run_reachable[OF reachable_init run_started_room] .

lemma reachable_entered_room: "reachable entered_room"
  using run_reachable[OF reachable_init run_entered_room] .

lemma reachable_two_sixes_room: "reachable two_sixes_room"
  using run_reachable[OF reachable_init run_two_sixes_room] .

lemma reachable_busted_room: "reachable busted_room"
  using run_reachable[OF reachable_init run_busted_room] .

lemma reachable_finished_token_room: "reachable finished_token_room"
  using run_reachable[OF reachable_init run_finished_token_room] .

lemma reachable_full_room: "reachable full_room"
  using run_reachable[OF reachable_init run_full_room] .

section \<open>Invariants of reachable rooms\<close>

lemma performMove_nth:
  assumes "performMove r pi tokenIndex roll = (r1, captured, finishedNow)"
    and "j < length (players r)"
  shows "players r1 ! j =
     (players r ! j)\<lparr>positions :=
        (let mover = players r ! pi;
             newPos = moveTarget (positions mover ! nat tokenIndex) roll;
             ps = map (\<lambda>oppPos. if isCaptured mover newPos (players r ! j) oppPos then - 1 else oppPos)
                    (positions (players r ! j))
         in if j = pi then ps[nat tokenIndex := newPos] else ps)\<rparr>"
  using assms by (auto simp: performMove_def Let_def nth_list_update)

lemma performMove_same:
  assumes "performMove r pi tokenIndex roll = (r1, captured, finishedNow)"
    and "j < length (players r)"
  shows "playerId (players r1 ! j) = playerId (players r ! j)"
    "ready (players r1 ! j) = ready (players r ! j)"
    "color (players r1 ! j) = color (players r ! j)"
    "name (players r1 ! j) = name (players r ! j)"
    "length (positions (players r1 ! j)) = length (positions (players r ! j))"
  by (simp_all add: performMove_nth[OF assms] Let_def)

lemma performMove_ready:
  assumes "performMove r pi tokenIndex roll = (r1, captured, finishedNow)"
    and "list_all ready (players r)"
  shows "list_all ready (players r1)"
  using assms(2) performMove_same(2)[OF assms(1)] performMove_fields(6)[OF assms(1)]
  by (simp add: list_all_length)

lemma room_inv_join: "room_inv r \<Longrightarrow> room_inv (fst (join_handler r nm c newId))"
  by (auto simp: room_inv_def turn_ok_def join_handler_def Let_def)

lemma room_inv_ready: "room_inv r \<Longrightarrow> room_inv (fst (ready_handler r sender))"
  by (auto simp: room_inv_def turn_ok_def ready_handler_def Let_def list_all_iff)

lemma room_inv_start: "room_inv r \<Longrightarrow> room_inv (fst (start_handler r sender))"
  by (auto simp: room_inv_def turn_ok_def start_handler_def)

lemma room_inv_close: "room_inv r \<Longrightarrow> room_inv (fst (close_handler r sender))"
  by (auto simp: room_inv_def turn_ok_def close_handler_def Let_def list_all_iff)

lemma room_inv_roll:
  assumes "room_inv r" "1 \<le> die" "die \<le> 6" "roll_handler r sender die = Inr (r', outs)"
  shows "room_inv r'"
proof (cases "nth_opt (players r) (turnIndex r)")
  case None
  with assms(4) show ?thesis by (simp add: roll_handler_def)
next
  case (Some p)
  then have rng: "0 \<le> turnIndex r" "turnIndex r < int (length (players r))"
    by (auto dest: nth_opt_SomeD)
  show ?thesis
  proof (cases "playerId p = sender")
    case False
    with Some assms(4) have "r' = r" by (simp add: roll_handler_def)
    with assms(1) show ?thesis by simp
  next
    case True
    from assms(4) spec_next_active_range[OF rng] assms(1-3) rng show ?thesis
      unfolding roll_handler_on_turn[OF Some True] Let_def
      by (auto simp: room_inv_def turn_ok_def split: if_splits)
  qed
qed

lemma move_handler_dropped:
  assumes "nth_opt (players r) (turnIndex r) = Some p"
    and "playerId p \<noteq> sender \<or> tokenIndex \<notin> set (computeMovableTokens r p (currentRoll r))"
  shows "move_handler r sender tokenIndex = Inr (r, [])"
proof (cases "playerId p = sender")
  case True
  with assms show ?thesis by (simp add: move_handler_def Let_def)
next
  case False
  with assms show ?thesis by (simp add: move_handler_def)
qed

lemma room_inv_move:
  assumes "room_inv r" "move_handler r sender tokenIndex = Inr (r', outs)"
  shows "room_inv r'"
proof (cases "nth_opt (players r) (turnIndex r)")
  case None
  with assms(2) show ?thesis by (simp add: move_handler_def)
next
  case (Some p)
  then have rng: "0 \<le> turnIndex r" "turnIndex r < int (length (players r))"
    by (auto dest: nth_opt_SomeD)
  show ?thesis
  proof (cases "playerId p = sender \<and> tokenIndex \<in> set (computeMovableTokens r p (currentRoll r))")
    case False
    with assms(2) move_handler_dropped[OF Some, of sender tokenIndex] have "r' = r" by auto
    with assms(1) show ?thesis by simp
  next
    case True
    obtain r1 captured finishedNow where
      pm: "performMove r (nat (turnIndex r)) tokenIndex (currentRoll r) = (r1, captured, finishedNow)"
      by (cases "performMove r (nat (turnIndex r)) tokenIndex (currentRoll r)") auto
    note f = performMove_fields[OF pm]
    have rng1: "0 \<le> turnIndex r" "turnIndex r < int (length (players r1))"
      using rng by (simp_all add: f)
    have rd: "gameStarted r \<longrightarrow> list_all ready (players r1)"
      using assms(1) performMove_ready[OF pm] by (simp add: room_inv_def)
    from True have t1: "playerId p = sender"
      and t2: "tokenIndex \<in> set (computeMovableTokens r p (currentRoll r))" by simp_all
    from assms(2) spec_next_active_range[OF rng1] rng1 rd assms(1) show ?thesis
      unfolding move_handler_on_turn[OF Some t1 t2 pm] Let_def
      by (auto simp: room_inv_def turn_ok_def f split: if_splits)
  qed
qed

lemma room_inv_step:
  assumes "room_inv r" "valid_event r ev" "on_event r ev = Inr (r', outs)"
  shows "room_inv r'"
proof (cases ev)
  case (Join nm c newId)
  with assms room_inv_join[of r nm c newId] show ?thesis by auto
next
  case (Ready sender)
  with assms room_inv_ready[of r sender] show ?thesis by auto
next
  case (Start sender)
  with assms room_inv_start[of r sender] show ?thesis by auto
next
  case (Roll sender die)
  with assms show ?thesis by (auto intro: room_inv_roll)
next
  case (Move sender tokenIndex)
  with assms show ?thesis by (auto intro: room_inv_move)
next
  case (Close sender)
  with assms room_inv_close[of r sender] show ?thesis by auto
qed

lemma reachable_room_inv: "reachable r \<Longrightarrow> room_inv r"
proof (induction rule: reachable.induct)
  case (reachable_init rid)
  show ?case by (simp add: room_inv_def turn_ok_def createRoom_def)
next
  case (reachable_step r ev r' outs)
  then show ?case by (blast intro: room_inv_step)
qed

text \<open>
  In a room that satisfies the invariant and has a player, the roll and the move
  handler return: neither read of \<^verbatim>\<open>players[turnIndex]\<close> is \<^verbatim>\<open>undefined\<close>.
\<close>

lemma roll_handler_returns:
  assumes "room_inv r" and "players r \<noteq> []"
  shows "\<exists>res. roll_handler r sender die = Inr res"
proof -
  from assms have "0 \<le> turnIndex r" "turnIndex r < int (length (players r))"
    by (auto simp: room_inv_def turn_ok_def)
  then have s: "nth_opt (players r) (turnIndex r) = Some (players r ! nat (turnIndex r))"
    by (rule nth_opt_Some)
  show ?thesis
  proof (cases "playerId (players r ! nat (turnIndex r)) = sender")
    case True
    show ?thesis unfolding roll_handler_on_turn[OF s True] Let_def by simp
  next
    case False
    with s show ?thesis by (simp add: roll_handler_def)
  qed
qed

lemma move_handler_returns:
  assumes "room_inv r" and "players r \<noteq> []"
  shows "\<exists>res. move_handler r sender tokenIndex = Inr res"
proof -
  let ?p = "players r ! nat (turnIndex r)"
  from assms have "0 \<le> turnIndex r" "turnIndex r < int (length (players r))"
    by (auto simp: room_inv_def turn_ok_def)
  then have s: "nth_opt (players r) (turnIndex r) = Some ?p"
    by (rule nth_opt_Some)
  show ?thesis
  proof (cases "playerId ?p = sender \<and> tokenIndex \<in> set (computeMovableTokens r ?p (currentRoll r))")
    case True
    obtain r1 captured finishedNow where
      pm: "performMove r (nat (turnIndex r)) tokenIndex (currentRoll r) = (r1, captured, finishedNow)"
      by (cases "performMove r (nat (turnIndex r)) tokenIndex (currentRoll r)") auto
    from True have t1: "playerId ?p = sender"
      and t2: "tokenIndex \<in> set (computeMovableTokens r ?p (currentRoll r))" by simp_all
    show ?thesis unfolding move_handler_on_turn[OF s t1 t2 pm] Let_def by simp
  next
    case False
    with move_handler_dropped[OF s, of sender tokenIndex] show ?thesis by auto
  qed
qed

text \<open>
  Claim C4. In every room reached from \<^verbatim>\<open>createRoom\<close> by any sequence of join, ready,
  start, roll, move and close requests, a non-empty roster has
  \<open>0 \<le> turnIndex < len(players)\<close>.
\<close>

theorem turnIndex_in_range:
  assumes "reachable r" and "players r \<noteq> []"
  shows "0 \<le> turnIndex r \<and> turnIndex r < int (length (players r))"
  using reachable_room_inv[OF assms(1)] assms(2) by (auto simp: room_inv_def turn_ok_def)

theorem turnIndex_in_range_witness:
  "reachable busted_room \<and> players busted_room \<noteq> [] \<and> turnIndex busted_room = 1 \<and>
   0 \<le> turnIndex busted_room \<and> turnIndex busted_room < int (length (players busted_room))"
proof -
  have h: "players busted_room \<noteq> []"
    by (simp add: busted_room_def)
  have t: "turnIndex busted_room = 1"
    by (simp add: busted_room_def)
  from turnIndex_in_range[OF reachable_busted_room h] reachable_busted_room h t
  show ?thesis by simp
qed

section \<open>Join and ready in a started room\<close>

text \<open>
  Claim C3, as the code has it. In a started room a join request is answered with an
  error and changes nothing. A ready request is not rejected: the handler has no test
  of \<^verbatim>\<open>gameStarted\<close>, sets the sender's flag and broadcasts the roster. In a started
  room that was reached by the handlers every player is ready already, so the room
  stays as it is, and the broadcast is the only effect.
\<close>

theorem started_room_join_and_ready:
  assumes "reachable r" and "gameStarted r"
  shows "join_handler r nm c newId =
           (r, [Send (Error_message ''Game already started for this room'')]) \<and>
         ready_handler r sender = (r, [Broadcast (Player_list (player_views (players r)))])"
proof -
  from reachable_room_inv[OF assms(1)] assms(2) have "list_all ready (players r)"
    by (simp add: room_inv_def)
  then have "map (\<lambda>p. if playerId p = sender then p\<lparr>ready := True\<rparr> else p) (players r) = players r"
    by (induction "players r" arbitrary: r) (auto simp: list_all_iff intro: map_idI)
  then show ?thesis
    using assms(2) by (simp add: join_handler_def ready_handler_def)
qed

theorem started_room_join_and_ready_witness:
  "reachable started_room \<and> gameStarted started_room \<and>
   join_handler started_room (Some ''C'') (Some ''blue'') ''c'' =
     (started_room, [Send (Error_message ''Game already started for this room'')]) \<and>
   ready_handler started_room ''a'' =
     (started_room, [Broadcast (Player_list (player_views (players started_room)))])"
proof -
  have h: "gameStarted started_room"
    by (simp add: started_room_def)
  from started_room_join_and_ready[OF reachable_started_room h] reachable_started_room h
  show ?thesis by simp
qed

text \<open>The claim as written fails: a ready request in a started room is broadcast.\<close>

theorem ready_after_start_counterexample:
  "gameStarted started_room \<and>
   ready_handler started_room ''a'' =
     (started_room,
      [Broadcast (Player_list [(''a'', ''A'', Some ''red'', True), (''b'', ''B'', Some ''green'', True)])])"
  by code_simp

section \<open>Requests out of turn\<close>

text \<open>
  Claim C5. A \<^verbatim>\<open>roll\<close> or \<^verbatim>\<open>move\<close> request whose sender is a player other than
  \<^verbatim>\<open>players[turnIndex]\<close> leaves the whole room as it is (roster, positions, turn
  pointer, pending roll and streak counter) and produces no effect at all: no
  broadcast and no error message.
\<close>

theorem off_turn_request_ignored:
  assumes "nth_opt (players r) (turnIndex r) = Some p" and "playerId p \<noteq> sender"
  shows "roll_handler r sender die = Inr (r, []) \<and> move_handler r sender tokenIndex = Inr (r, [])"
  using assms by (simp add: roll_handler_def move_handler_def)

theorem off_turn_request_ignored_witness:
  "nth_opt (players started_room) (turnIndex started_room) = Some alice \<and>
   playerId alice \<noteq> ''b'' \<and>
   roll_handler started_room ''b'' 6 = Inr (started_room, []) \<and>
   move_handler started_room ''b'' 0 = Inr (started_room, [])"
proof -
  have h1: "nth_opt (players started_room) (turnIndex started_room) = Some alice"
    by (simp add: started_room_def nth_opt_def)
  have h2: "playerId alice \<noteq> ''b''"
    by (simp add: alice_def)
  from off_turn_request_ignored[OF h1 h2, of 6 0] h1 h2 show ?thesis by simp
qed

section \<open>The third six in a row\<close>

text \<open>
  Claim C6. When the player whose turn it is rolls a 6 and the streak counter reaches 3
  by the increment, the turn passes to the next active player whatever the legal moves
  are (they are still reported in \<^verbatim>\<open>roll_result\<close>), and \<^verbatim>\<open>consecutiveSixes\<close> is 0
  afterwards.
\<close>

theorem third_six_passes_turn:
  assumes "nth_opt (players r) (turnIndex r) = Some p" and "playerId p = sender"
    and "consecutiveSixes r + 1 \<ge> 3"
  shows "roll_handler r sender 6 =
     Inr (r\<lparr>currentRoll := 6, consecutiveSixes := 0,
            turnIndex := spec_next_active (players r) (turnIndex r)\<rparr>,
          [Broadcast (Roll_result sender 6 (computeMovableTokens r p 6)),
           Broadcast (Turn (playerId (players r ! nat (spec_next_active (players r) (turnIndex r)))))])"
  using assms by (simp add: roll_handler_on_turn[OF assms(1,2)] Let_def)

theorem third_six_passes_turn_witness:
  "nth_opt (players two_sixes_room) (turnIndex two_sixes_room)
     = Some (alice\<lparr>positions := [0, 0, - 1, - 1]\<rparr>) \<and>
   consecutiveSixes two_sixes_room + 1 \<ge> 3 \<and>
   computeMovableTokens two_sixes_room (alice\<lparr>positions := [0, 0, - 1, - 1]\<rparr>) 6 = [0, 1, 2, 3] \<and>
   roll_handler two_sixes_room ''a'' 6 =
     Inr (two_sixes_room\<lparr>currentRoll := 6, consecutiveSixes := 0, turnIndex := 1\<rparr>,
          [Broadcast (Roll_result ''a'' 6 [0, 1, 2, 3]), Broadcast (Turn ''b'')])"
proof -
  let ?p = "alice\<lparr>positions := [0, 0, - 1, - 1]\<rparr>"
  have h1: "nth_opt (players two_sixes_room) (turnIndex two_sixes_room) = Some ?p"
    by (simp add: two_sixes_room_def nth_opt_def)
  have h2: "playerId ?p = ''a''"
    by (simp add: alice_def)
  have h3: "consecutiveSixes two_sixes_room + 1 \<ge> 3"
    by (simp add: two_sixes_room_def)
  have e1: "spec_next_active (players two_sixes_room) (turnIndex two_sixes_room) = 1"
    by code_simp
  have e2: "computeMovableTokens two_sixes_room ?p 6 = [0, 1, 2, 3]"
    by code_simp
  have e3: "playerId (players two_sixes_room ! Suc 0) = ''b''"
    by (simp add: two_sixes_room_def bob_def)
  from third_six_passes_turn[OF h1 h2 h3] h1 h3 e2 show ?thesis
    by (simp add: e1 e3)
qed

section \<open>Which move requests are executed\<close>

lemma movableFrom_set:
  "x \<in> set (movableFrom i xs roll) \<longleftrightarrow>
     (i \<le> x \<and> x < i + int (length xs) \<and> tokenMovable (xs ! nat (x - i)) roll)"
proof (induction xs arbitrary: i)
  case Nil
  show ?case by simp
next
  case (Cons pos rest)
  have *: "(pos # rest) ! nat (x - i) = rest ! nat (x - (i + 1))" if "i + 1 \<le> x"
  proof -
    from that have "nat (x - i) = Suc (nat (x - (i + 1)))" by linarith
    then show ?thesis by simp
  qed
  show ?case
  proof (cases "x = i")
    case True
    then show ?thesis using Cons.IH[of "i + 1"] by auto
  next
    case False
    then show ?thesis using Cons.IH[of "i + 1"] * by auto
  qed
qed

lemma computeMovableTokens_iff:
  "x \<in> set (computeMovableTokens r p roll) \<longleftrightarrow>
     (0 \<le> x \<and> x < int (length (positions p)) \<and> tokenMovable (positions p ! nat x) roll)"
  by (simp add: computeMovableTokens_def movableFrom_set)

lemma computeMovableTokens_range:
  "x \<in> set (computeMovableTokens r p roll) \<Longrightarrow> 0 \<le> x \<and> nat x < length (positions p)"
  by (auto simp: computeMovableTokens_iff)

lemma tokenMovable_no_roll: "tokenMovable pos 0 \<longleftrightarrow> pos \<noteq> - 1 \<and> pos \<le> 57"
  by (auto simp: tokenMovable_def)

text \<open>
  Claim C1, as the code has it. A move request is executed exactly when the sender is
  \<^verbatim>\<open>players[turnIndex]\<close> and the requested index is among
  \<^verbatim>\<open>computeMovableTokens(currentRoom, currentPlayer, currentRoll)\<close>; when one of the two
  fails the request is dropped with no change of the room and no effect. There is no
  test that a roll is outstanding: with \<^verbatim>\<open>currentRoll = 0\<close> the legal indices are
  the tokens that are not at home. An executed move puts the roster of \<^verbatim>\<open>performMove\<close>
  in place, broadcasts \<^verbatim>\<open>state_update\<close> first and leaves \<^verbatim>\<open>currentRoll = 0\<close>.
\<close>

theorem move_request_acceptance:
  assumes "nth_opt (players r) (turnIndex r) = Some p"
  shows "(playerId p \<noteq> sender \<or> tokenIndex \<notin> set (computeMovableTokens r p (currentRoll r))
            \<longrightarrow> move_handler r sender tokenIndex = Inr (r, [])) \<and>
         (playerId p = sender \<and> tokenIndex \<in> set (computeMovableTokens r p (currentRoll r))
            \<longrightarrow> (\<exists>r1 captured finishedNow r' rest.
                   performMove r (nat (turnIndex r)) tokenIndex (currentRoll r)
                     = (r1, captured, finishedNow) \<and>
                   move_handler r sender tokenIndex =
                     Inr (r', Broadcast (State_update sender (positions (players r1 ! nat (turnIndex r)))
                                tokenIndex (currentRoll r) captured finishedNow) # rest) \<and>
                   players r' = players r1 \<and> currentRoll r' = 0)) \<and>
         (currentRoll r = 0
            \<longrightarrow> (tokenIndex \<in> set (computeMovableTokens r p (currentRoll r)) \<longleftrightarrow>
                  0 \<le> tokenIndex \<and> tokenIndex < int (length (positions p)) \<and>
                  positions p ! nat tokenIndex \<noteq> - 1 \<and> positions p ! nat tokenIndex \<le> 57))"
proof (intro conjI impI)
  assume "playerId p \<noteq> sender \<or> tokenIndex \<notin> set (computeMovableTokens r p (currentRoll r))"
  then show "move_handler r sender tokenIndex = Inr (r, [])"
    by (rule move_handler_dropped[OF assms])
next
  assume a: "playerId p = sender \<and> tokenIndex \<in> set (computeMovableTokens r p (currentRoll r))"
  obtain r1 captured finishedNow where
    pm: "performMove r (nat (turnIndex r)) tokenIndex (currentRoll r) = (r1, captured, finishedNow)"
    by (cases "performMove r (nat (turnIndex r)) tokenIndex (currentRoll r)") auto
  from a have a1: "playerId p = sender"
    and a2: "tokenIndex \<in> set (computeMovableTokens r p (currentRoll r))" by simp_all
  show "\<exists>r1 captured finishedNow r' rest.
          performMove r (nat (turnIndex r)) tokenIndex (currentRoll r) = (r1, captured, finishedNow) \<and>
          move_handler r sender tokenIndex =
            Inr (r', Broadcast (State_update sender (positions (players r1 ! nat (turnIndex r)))
                       tokenIndex (currentRoll r) captured finishedNow) # rest) \<and>
          players r' = players r1 \<and> currentRoll r' = 0"
    unfolding move_handler_on_turn[OF assms a1 a2 pm] Let_def
    using pm by (auto split: if_splits)
next
  assume "currentRoll r = 0"
  then show "tokenIndex \<in> set (computeMovableTokens r p (currentRoll r)) \<longleftrightarrow>
      0 \<le> tokenIndex \<and> tokenIndex < int (length (positions p)) \<and>
      positions p ! nat tokenIndex \<noteq> - 1 \<and> positions p ! nat tokenIndex \<le> 57"
    by (simp add: computeMovableTokens_iff tokenMovable_no_roll)
qed

theorem move_request_acceptance_witness:
  "nth_opt (players entered_room) (turnIndex entered_room)
     = Some (alice\<lparr>positions := [0, - 1, - 1, - 1]\<rparr>) \<and>
   1 \<notin> set (computeMovableTokens entered_room (alice\<lparr>positions := [0, - 1, - 1, - 1]\<rparr>)
            (currentRoll entered_room)) \<and>
   move_handler entered_room ''a'' 1 = Inr (entered_room, []) \<and>
   0 \<in> set (computeMovableTokens entered_room (alice\<lparr>positions := [0, - 1, - 1, - 1]\<rparr>)
            (currentRoll entered_room)) \<and>
   (\<exists>r' rest. move_handler entered_room ''a'' 0 =
       Inr (r', Broadcast (State_update ''a'' [0, - 1, - 1, - 1] 0 0 False False) # rest) \<and>
      currentRoll r' = 0)"
proof -
  let ?p = "alice\<lparr>positions := [0, - 1, - 1, - 1]\<rparr>"
  have h1: "nth_opt (players entered_room) (turnIndex entered_room) = Some ?p"
    by (simp add: entered_room_def nth_opt_def)
  have h2: "1 \<notin> set (computeMovableTokens entered_room ?p (currentRoll entered_room))"
    by code_simp
  have h3: "0 \<in> set (computeMovableTokens entered_room ?p (currentRoll entered_room))"
    by code_simp
  have h4: "playerId ?p = ''a''"
    by (simp add: alice_def)
  have pm: "performMove entered_room (nat (turnIndex entered_room)) 0 (currentRoll entered_room)
      = (entered_room, False, False)"
    by code_simp
  have e: "positions (players entered_room ! nat (turnIndex entered_room)) = [0, - 1, - 1, - 1]"
    "currentRoll entered_room = 0"
    by (simp_all add: entered_room_def)
  from move_request_acceptance[OF h1, of "''a''" 1] h2
  have dropped: "move_handler entered_room ''a'' 1 = Inr (entered_room, [])" by blast
  from move_request_acceptance[OF h1, of "''a''" 0] h3 h4
  have "\<exists>r1 captured finishedNow r' rest.
      performMove entered_room (nat (turnIndex entered_room)) 0 (currentRoll entered_room)
        = (r1, captured, finishedNow) \<and>
      move_handler entered_room ''a'' 0 =
        Inr (r', Broadcast (State_update ''a'' (positions (players r1 ! nat (turnIndex entered_room)))
                   0 (currentRoll entered_room) captured finishedNow) # rest) \<and>
      players r' = players r1 \<and> currentRoll r' = 0"
    by blast
  then have "\<exists>r' rest. move_handler entered_room ''a'' 0 =
       Inr (r', Broadcast (State_update ''a'' [0, - 1, - 1, - 1] 0 0 False False) # rest) \<and>
      currentRoll r' = 0"
    unfolding pm using e by auto
  with h1 h2 h3 dropped show ?thesis by simp
qed

text \<open>
  The claim as written fails: after an extra turn no roll is outstanding, and a move
  request of the same player for a token on the track is executed. It moves the token
  by 0 and passes the turn.
\<close>

theorem move_without_roll_counterexample:
  "reachable entered_room \<and> currentRoll entered_room = 0 \<and>
   move_handler entered_room ''a'' 0 =
     Inr (entered_room\<lparr>turnIndex := 1, consecutiveSixes := 0\<rparr>,
          [Broadcast (State_update ''a'' [0, - 1, - 1, - 1] 0 0 False False),
           Broadcast (Turn ''b'')])"
proof -
  have "currentRoll entered_room = 0 \<and>
   move_handler entered_room ''a'' 0 =
     Inr (entered_room\<lparr>turnIndex := 1, consecutiveSixes := 0\<rparr>,
          [Broadcast (State_update ''a'' [0, - 1, - 1, - 1] 0 0 False False),
           Broadcast (Turn ''b'')])"
    by code_simp
  with reachable_entered_room show ?thesis by simp
qed

section \<open>Who plays after a move\<close>

text \<open>
  Claim C7, as the code has it. After an executed move the turn stays with the mover
  when the roll was a 6 and \<^verbatim>\<open>consecutiveSixes\<close> is positive, or the move captured, or
  the moved token reached 57; otherwise \<^verbatim>\<open>consecutiveSixes\<close> is reset and the turn
  passes to the next active player. In both cases \<^verbatim>\<open>currentRoll\<close> is 0 in the room the
  final \<^verbatim>\<open>turn\<close> notification is taken from.
\<close>

theorem move_turn_rule:
  assumes "nth_opt (players r) (turnIndex r) = Some p" and "playerId p = sender"
    and "tokenIndex \<in> set (computeMovableTokens r p (currentRoll r))"
    and "performMove r (nat (turnIndex r)) tokenIndex (currentRoll r) = (r1, captured, finishedNow)"
  shows "\<exists>r' outs.
     move_handler r sender tokenIndex =
       Inr (r', outs @ [Broadcast (Turn (playerId (players r' ! nat (turnIndex r'))))]) \<and>
     players r' = players r1 \<and> currentRoll r' = 0 \<and>
     turnIndex r' =
       (if (currentRoll r = 6 \<and> consecutiveSixes r > 0) \<or> captured \<or> finishedNow
        then turnIndex r else spec_next_active (players r1) (turnIndex r)) \<and>
     consecutiveSixes r' =
       (if (currentRoll r = 6 \<and> consecutiveSixes r > 0) \<or> captured \<or> finishedNow
        then consecutiveSixes r else 0)"
proof -
  note f = performMove_fields[OF assms(4)]
  show ?thesis
    unfolding move_handler_on_turn[OF assms] Let_def
    by (cases "(currentRoll r = 6 \<and> consecutiveSixes r > 0) \<or> captured \<or> finishedNow")
       (simp_all add: f del: append.simps)
qed

theorem move_turn_rule_witness:
  "nth_opt (players contested_room) (turnIndex contested_room)
     = Some (alice\<lparr>positions := [10, 4, - 1, - 1]\<rparr>) \<and>
   0 \<in> set (computeMovableTokens contested_room (alice\<lparr>positions := [10, 4, - 1, - 1]\<rparr>)
            (currentRoll contested_room)) \<and>
   (\<exists>r' outs. move_handler contested_room ''a'' 0 = Inr (r', outs @ [Broadcast (Turn ''a'')]) \<and>
      currentRoll r' = 0 \<and> turnIndex r' = 0 \<and> consecutiveSixes r' = 0)"
proof -
  let ?p = "alice\<lparr>positions := [10, 4, - 1, - 1]\<rparr>"
  let ?r1 = "contested_room\<lparr>players :=
      [alice\<lparr>positions := [14, 4, - 1, - 1]\<rparr>, bob\<lparr>positions := [- 1, 47, - 1, - 1]\<rparr>]\<rparr>"
  have h1: "nth_opt (players contested_room) (turnIndex contested_room) = Some ?p"
    by (simp add: contested_room_def nth_opt_def)
  have h2: "playerId ?p = ''a''"
    by (simp add: alice_def)
  have h3: "0 \<in> set (computeMovableTokens contested_room ?p (currentRoll contested_room))"
    by code_simp
  have h4: "performMove contested_room (nat (turnIndex contested_room)) 0 (currentRoll contested_room)
      = (?r1, True, False)"
    by code_simp
  have t: "turnIndex contested_room = 0" "consecutiveSixes contested_room = 0"
    by (simp_all add: contested_room_def)
  from move_turn_rule[OF h1 h2 h3 h4] obtain r' outs where
    m: "move_handler contested_room ''a'' 0 =
          Inr (r', outs @ [Broadcast (Turn (playerId (players r' ! nat (turnIndex r'))))])"
    and p: "players r' = players ?r1" and c: "currentRoll r' = 0"
    and ti: "turnIndex r' = 0" and cs: "consecutiveSixes r' = 0"
    by (auto simp: t)
  have "playerId (players r' ! nat (turnIndex r')) = ''a''"
    by (simp add: p ti alice_def)
  with m c ti cs h1 h3 show ?thesis by auto
qed

text \<open>
  The claim as written fails: after a busted streak the stored roll is still the 6 of
  the previous player and \<^verbatim>\<open>consecutiveSixes\<close> is 0. A move of the next player with
  that 6, with no capture and no finish, passes the turn.
\<close>

theorem move_with_six_passes_turn_counterexample:
  "reachable busted_room \<and> currentRoll busted_room = 6 \<and> turnIndex busted_room = 1 \<and>
   move_handler busted_room ''b'' 0 =
     Inr (busted_room\<lparr>players := [alice\<lparr>positions := [0, 0, - 1, - 1]\<rparr>,
                                   bob\<lparr>positions := [0, - 1, - 1, - 1]\<rparr>],
                       turnIndex := 0, currentRoll := 0\<rparr>,
          [Broadcast (State_update ''b'' [0, - 1, - 1, - 1] 0 6 False False),
           Broadcast (Turn ''a'')])"
proof -
  have "currentRoll busted_room = 6 \<and> turnIndex busted_room = 1 \<and>
   move_handler busted_room ''b'' 0 =
     Inr (busted_room\<lparr>players := [alice\<lparr>positions := [0, 0, - 1, - 1]\<rparr>,
                                   bob\<lparr>positions := [0, - 1, - 1, - 1]\<rparr>],
                       turnIndex := 0, currentRoll := 0\<rparr>,
          [Broadcast (State_update ''b'' [0, - 1, - 1, - 1] 0 6 False False),
           Broadcast (Turn ''a'')])"
    by code_simp
  with reachable_busted_room show ?thesis by simp
qed

section \<open>Captures and safe squares\<close>

lemma performMove_captured:
  assumes "performMove r pi tokenIndex roll = (r', captured, finishedNow)"
  shows "captured \<longleftrightarrow>
     (\<exists>j < length (players r). \<exists>i < length (positions (players r ! j)).
        isCaptured (players r ! pi) (moveTarget (positions (players r ! pi) ! nat tokenIndex) roll)
          (players r ! j) (positions (players r ! j) ! i))"
proof -
  from assms have "captured =
      list_ex (\<lambda>opponent. list_ex (isCaptured (players r ! pi)
          (moveTarget (positions (players r ! pi) ! nat tokenIndex) roll) opponent) (positions opponent))
        (players r)"
    by (auto simp: performMove_def Let_def)
  then show ?thesis by (simp add: list_ex_length)
qed


text \<open>
  Claim C8. When the global index of the destination is in the safe set
  \<open>{0, 8, 13, 21, 26, 34, 39, 47}\<close>, \<^verbatim>\<open>performMove\<close> captures nothing: \<^verbatim>\<open>captured\<close> is
  false and every other player is left as it was, whoever stands on that cell. When
  the destination is on the main track and not safe, every main-track token of an
  opponent with the same global index is sent to \<open>-1\<close>, every other token of an
  opponent keeps its position, and \<^verbatim>\<open>captured\<close> tells whether there was such a token.
\<close>

theorem capture_rule:
  assumes "performMove r pi tokenIndex roll = (r', captured, finishedNow)"
    and "pi < length (players r)"
  shows "let mover = players r ! pi;
             newPos = moveTarget (positions mover ! nat tokenIndex) roll;
             target = computeGlobalIndex (color mover) newPos
         in (isSafe target \<longrightarrow>
               \<not> captured \<and> (\<forall>j < length (players r). j \<noteq> pi \<longrightarrow> players r' ! j = players r ! j)) \<and>
            (\<not> isSafe target \<and> newPos \<le> 51 \<longrightarrow>
               (\<forall>j < length (players r). playerId (players r ! j) \<noteq> playerId mover \<longrightarrow>
                  (\<forall>i < length (positions (players r ! j)).
                     positions (players r' ! j) ! i =
                       (if 0 \<le> positions (players r ! j) ! i \<and> positions (players r ! j) ! i \<le> 51 \<and>
                           js_eq (computeGlobalIndex (color (players r ! j)) (positions (players r ! j) ! i))
                             target
                        then - 1 else positions (players r ! j) ! i))) \<and>
               (captured \<longleftrightarrow>
                  (\<exists>j < length (players r). playerId (players r ! j) \<noteq> playerId mover \<and>
                     (\<exists>i < length (positions (players r ! j)).
                        0 \<le> positions (players r ! j) ! i \<and> positions (players r ! j) ! i \<le> 51 \<and>
                        js_eq (computeGlobalIndex (color (players r ! j)) (positions (players r ! j) ! i))
                          target))))"
proof -
  let ?mover = "players r ! pi"
  let ?newPos = "moveTarget (positions ?mover ! nat tokenIndex) roll"
  let ?target = "computeGlobalIndex (color ?mover) ?newPos"
  note nth = performMove_nth[OF assms(1)]
  note cap = performMove_captured[OF assms(1)]
  have safe: "\<not> captured \<and> (\<forall>j < length (players r). j \<noteq> pi \<longrightarrow> players r' ! j = players r ! j)"
    if "isSafe ?target"
  proof -
    from that have no: "\<And>opp oppPos. \<not> isCaptured ?mover ?newPos opp oppPos"
      by (simp add: isCaptured_def)
    then show ?thesis by (simp add: cap nth Let_def)
  qed
  have unsafe1: "positions (players r' ! j) ! i =
       (if 0 \<le> positions (players r ! j) ! i \<and> positions (players r ! j) ! i \<le> 51 \<and>
           js_eq (computeGlobalIndex (color (players r ! j)) (positions (players r ! j) ! i)) ?target
        then - 1 else positions (players r ! j) ! i)"
    if "\<not> isSafe ?target" "?newPos \<le> 51" "j < length (players r)"
      "playerId (players r ! j) \<noteq> playerId ?mover" "i < length (positions (players r ! j))" for j i
  proof -
    from that(4) have "j \<noteq> pi" by auto
    with that show ?thesis by (simp add: nth Let_def isCaptured_def)
  qed
  have unsafe2: "captured \<longleftrightarrow>
       (\<exists>j < length (players r). playerId (players r ! j) \<noteq> playerId ?mover \<and>
          (\<exists>i < length (positions (players r ! j)).
             0 \<le> positions (players r ! j) ! i \<and> positions (players r ! j) ! i \<le> 51 \<and>
             js_eq (computeGlobalIndex (color (players r ! j)) (positions (players r ! j) ! i)) ?target))"
    if "\<not> isSafe ?target" "?newPos \<le> 51"
    unfolding cap isCaptured_def using that by auto
  show ?thesis
    unfolding Let_def using safe unsafe1 unsafe2 by blast
qed

theorem capture_rule_witness:
  "performMove contested_room 0 1 4 =
     (contested_room\<lparr>players := [alice\<lparr>positions := [10, 8, - 1, - 1]\<rparr>,
                                   bob\<lparr>positions := [1, 47, - 1, - 1]\<rparr>]\<rparr>, False, False) \<and>
   0 < length (players contested_room) \<and>
   isSafe (computeGlobalIndex (Some ''red'') 8) \<and>
   js_eq (computeGlobalIndex (Some ''green'') 47) (computeGlobalIndex (Some ''red'') 8) \<and>
   players (contested_room\<lparr>players := [alice\<lparr>positions := [10, 8, - 1, - 1]\<rparr>,
                                   bob\<lparr>positions := [1, 47, - 1, - 1]\<rparr>]\<rparr>) ! 1
     = players contested_room ! 1 \<and>
   performMove contested_room 0 0 4 =
     (contested_room\<lparr>players := [alice\<lparr>positions := [14, 4, - 1, - 1]\<rparr>,
                                   bob\<lparr>positions := [- 1, 47, - 1, - 1]\<rparr>]\<rparr>, True, False) \<and>
   \<not> isSafe (computeGlobalIndex (Some ''red'') 14) \<and>
   positions (players (contested_room\<lparr>players := [alice\<lparr>positions := [14, 4, - 1, - 1]\<rparr>,
                                   bob\<lparr>positions := [- 1, 47, - 1, - 1]\<rparr>]\<rparr>) ! 1) ! 0 = - 1"
proof -
  let ?rs = "contested_room\<lparr>players := [alice\<lparr>positions := [10, 8, - 1, - 1]\<rparr>,
                                   bob\<lparr>positions := [1, 47, - 1, - 1]\<rparr>]\<rparr>"
  let ?rc = "contested_room\<lparr>players := [alice\<lparr>positions := [14, 4, - 1, - 1]\<rparr>,
                                   bob\<lparr>positions := [- 1, 47, - 1, - 1]\<rparr>]\<rparr>"
  have pm1: "performMove contested_room 0 1 4 = (?rs, False, False)" by code_simp
  have pm2: "performMove contested_room 0 0 4 = (?rc, True, False)" by code_simp
  have l: "0 < length (players contested_room)" by (simp add: contested_room_def)
  have g: "isSafe (computeGlobalIndex (Some ''red'') 8)"
    "js_eq (computeGlobalIndex (Some ''green'') 47) (computeGlobalIndex (Some ''red'') 8)"
    "\<not> isSafe (computeGlobalIndex (Some ''red'') 14)"
    by code_simp+
  have s1: "isSafe (computeGlobalIndex (color (players contested_room ! 0))
      (moveTarget (positions (players contested_room ! 0) ! nat 1) 4))"
    by code_simp
  from capture_rule[OF pm1 l] s1
  have "\<forall>j < length (players contested_room). j \<noteq> 0 \<longrightarrow> players ?rs ! j = players contested_room ! j"
    unfolding Let_def by blast
  moreover have "(1::nat) < length (players contested_room)" by (simp add: contested_room_def)
  ultimately have k1: "players ?rs ! 1 = players contested_room ! 1" by auto
  have s2: "\<not> isSafe (computeGlobalIndex (color (players contested_room ! 0))
      (moveTarget (positions (players contested_room ! 0) ! nat 0) 4)) \<and>
      moveTarget (positions (players contested_room ! 0) ! nat 0) 4 \<le> 51"
    by code_simp
  from capture_rule[OF pm2 l] s2
  have "\<forall>j < length (players contested_room).
     playerId (players contested_room ! j) \<noteq> playerId (players contested_room ! 0) \<longrightarrow>
       (\<forall>i < length (positions (players contested_room ! j)).
          positions (players ?rc ! j) ! i =
            (if 0 \<le> positions (players contested_room ! j) ! i \<and>
                positions (players contested_room ! j) ! i \<le> 51 \<and>
                js_eq (computeGlobalIndex (color (players contested_room ! j))
                         (positions (players contested_room ! j) ! i))
                  (computeGlobalIndex (color (players contested_room ! 0))
                     (moveTarget (positions (players contested_room ! 0) ! nat 0) 4))
             then - 1 else positions (players contested_room ! j) ! i))"
    unfolding Let_def by blast
  moreover have "(1::nat) < length (players contested_room) \<and>
     playerId (players contested_room ! 1) \<noteq> playerId (players contested_room ! 0) \<and>
     0 < length (positions (players contested_room ! 1))"
    by code_simp
  ultimately have "positions (players ?rc ! 1) ! 0 =
            (if 0 \<le> positions (players contested_room ! 1) ! 0 \<and>
                positions (players contested_room ! 1) ! 0 \<le> 51 \<and>
                js_eq (computeGlobalIndex (color (players contested_room ! 1))
                         (positions (players contested_room ! 1) ! 0))
                  (computeGlobalIndex (color (players contested_room ! 0))
                     (moveTarget (positions (players contested_room ! 0) ! nat 0) 4))
             then - 1 else positions (players contested_room ! 1) ! 0)"
    by blast
  moreover have "0 \<le> positions (players contested_room ! 1) ! 0 \<and>
                positions (players contested_room ! 1) ! 0 \<le> 51 \<and>
                js_eq (computeGlobalIndex (color (players contested_room ! 1))
                         (positions (players contested_room ! 1) ! 0))
                  (computeGlobalIndex (color (players contested_room ! 0))
                     (moveTarget (positions (players contested_room ! 0) ! nat 0) 4))"
    by code_simp
  ultimately have k2: "positions (players ?rc ! 1) ! 0 = - 1" by simp
  from pm1 pm2 l g k1 k2 show ?thesis by blast
qed

section \<open>Finished tokens\<close>

lemma find_filter: "find P (filter Q xs) = find (\<lambda>x. Q x \<and> P x) xs"
  by (induction xs) auto

lemma find_append_first: "find P xs = Some x \<Longrightarrow> find P (xs @ ys) = Some x"
  by (induction xs) (auto split: if_splits)

lemma tokenPos_kept:
  assumes len: "length (players r') = length (players r)"
    and same: "\<And>j. j < length (players r) \<Longrightarrow>
        playerId (players r' ! j) = playerId (players r ! j) \<and>
        length (positions (players r' ! j)) = length (positions (players r ! j)) \<and>
        (\<forall>k < length (positions (players r ! j)).
           positions (players r ! j) ! k = 57 \<longrightarrow> positions (players r' ! j) ! k = 57)"
    and tp: "tokenPos r pid i = Some 57"
  shows "tokenPos r' pid i = Some 57"
proof -
  from tp obtain p where f: "find (\<lambda>p. playerId p = pid) (players r) = Some p"
    and n: "nth_opt (positions p) i = Some 57"
    by (auto simp: tokenPos_def split: option.splits)
  from f obtain j where j: "j < length (players r)" "playerId (players r ! j) = pid"
    "p = players r ! j" "\<forall>k<j. playerId (players r ! k) \<noteq> pid"
    by (auto simp: find_Some_iff)
  have before: "playerId (players r' ! k) \<noteq> pid" if "k < j" for k
  proof -
    from that j(1) have "k < length (players r)" by simp
    from same[OF this] j(4) that show ?thesis by simp
  qed
  have "find (\<lambda>p. playerId p = pid) (players r') = Some (players r' ! j)"
    unfolding find_Some_iff
  proof (intro exI[of _ j] conjI allI impI)
    show "j < length (players r')" using j(1) len by simp
    show "playerId (players r' ! j) = pid" using same[OF j(1)] j(2) by simp
    show "players r' ! j = players r' ! j" by simp
    show "\<not> playerId (players r' ! k) = pid" if "k < j" for k using before[OF that] .
  qed
  moreover have "nth_opt (positions (players r' ! j)) i = Some 57"
    using n same[OF j(1)] j(3) by (auto simp: nth_opt_def split: if_splits)
  ultimately show ?thesis by (simp add: tokenPos_def)
qed

lemma tokenPos_same_players:
  "players r' = players r \<Longrightarrow> tokenPos r' pid i = tokenPos r pid i"
  by (simp add: tokenPos_def)

lemma tokenMovable_finished: "0 \<le> roll \<Longrightarrow> tokenMovable 57 roll \<Longrightarrow> moveTarget 57 roll = 57"
  by (auto simp: tokenMovable_def moveTarget_def Let_def)

lemma not_isCaptured_finished: "\<not> isCaptured mover newPos opponent 57"
  by (simp add: isCaptured_def)

lemma performMove_keeps_finished:
  assumes pm: "performMove r pi tokenIndex roll = (r1, captured, finishedNow)"
    and pi: "pi < length (players r)"
    and legal: "tokenIndex \<in> set (computeMovableTokens r (players r ! pi) roll)"
    and roll: "0 \<le> roll"
    and j: "j < length (players r)" and k: "k < length (positions (players r ! j))"
    and fin: "positions (players r ! j) ! k = 57"
  shows "positions (players r1 ! j) ! k = 57"
proof (cases "j = pi \<and> k = nat tokenIndex")
  case True
  from legal have "tokenMovable (positions (players r ! pi) ! nat tokenIndex) roll"
    by (simp add: computeMovableTokens_iff)
  with True fin roll have "moveTarget (positions (players r ! pi) ! nat tokenIndex) roll = 57"
    by (simp add: tokenMovable_finished)
  then show ?thesis
    unfolding performMove_nth[OF pm j] Let_def using True k by simp
next
  case False
  with k fin show ?thesis
    by (auto simp: performMove_nth[OF pm j] Let_def not_isCaptured_finished)
qed

lemma move_handler_keeps_finished:
  assumes inv: "room_inv r" and mv: "move_handler r sender tokenIndex = Inr (r', outs)"
    and tp: "tokenPos r pid i = Some 57"
  shows "tokenPos r' pid i = Some 57"
proof (cases "nth_opt (players r) (turnIndex r)")
  case None
  with mv show ?thesis by (simp add: move_handler_def)
next
  case (Some p)
  then have rng: "0 \<le> turnIndex r" "turnIndex r < int (length (players r))"
    and p: "p = players r ! nat (turnIndex r)"
    by (auto dest: nth_opt_SomeD)
  show ?thesis
  proof (cases "playerId p = sender \<and> tokenIndex \<in> set (computeMovableTokens r p (currentRoll r))")
    case False
    with mv move_handler_dropped[OF Some, of sender tokenIndex] have "r' = r" by auto
    with tp show ?thesis by simp
  next
    case True
    obtain r1 captured finishedNow where
      pm: "performMove r (nat (turnIndex r)) tokenIndex (currentRoll r) = (r1, captured, finishedNow)"
      by (cases "performMove r (nat (turnIndex r)) tokenIndex (currentRoll r)") auto
    from True have t1: "playerId p = sender"
      and t2: "tokenIndex \<in> set (computeMovableTokens r p (currentRoll r))" by simp_all
    from mv have pl: "players r' = players r1"
      unfolding move_handler_on_turn[OF Some t1 t2 pm] Let_def by (auto split: if_splits)
    have pi: "nat (turnIndex r) < length (players r)" using rng by simp
    from inv have roll: "0 \<le> currentRoll r" by (simp add: room_inv_def)
    have "tokenPos r1 pid i = Some 57"
    proof (rule tokenPos_kept[OF _ _ tp])
      show "length (players r1) = length (players r)" by (rule performMove_fields(6)[OF pm])
    next
      fix j assume j: "j < length (players r)"
      show "playerId (players r1 ! j) = playerId (players r ! j) \<and>
        length (positions (players r1 ! j)) = length (positions (players r ! j)) \<and>
        (\<forall>k < length (positions (players r ! j)).
           positions (players r ! j) ! k = 57 \<longrightarrow> positions (players r1 ! j) ! k = 57)"
        using performMove_same(1,5)[OF pm j]
          performMove_keeps_finished[OF pm pi t2[unfolded p] roll j]
        by simp
    qed
    then show ?thesis by (simp add: tokenPos_same_players[OF pl])
  qed
qed

lemma roll_handler_players:
  assumes "roll_handler r sender die = Inr (r', outs)"
  shows "players r' = players r"
proof (cases "nth_opt (players r) (turnIndex r)")
  case None
  with assms show ?thesis by (simp add: roll_handler_def)
next
  case (Some p)
  show ?thesis
  proof (cases "playerId p = sender")
    case False
    with Some assms show ?thesis by (simp add: roll_handler_def)
  next
    case True
    from assms show ?thesis
      unfolding roll_handler_on_turn[OF Some True] Let_def by (auto split: if_splits)
  qed
qed

lemma tokenPos_append:
  assumes "tokenPos r pid i = Some 57" and "players r' = players r @ ps"
  shows "tokenPos r' pid i = Some 57"
proof -
  from assms(1) obtain p where f: "find (\<lambda>p. playerId p = pid) (players r) = Some p"
    and n: "nth_opt (positions p) i = Some 57"
    by (auto simp: tokenPos_def split: option.splits)
  from find_append_first[OF f] have "find (\<lambda>p. playerId p = pid) (players r') = Some p"
    by (simp only: assms(2))
  with n show ?thesis by (simp add: tokenPos_def)
qed

lemma join_handler_keeps_finished:
  assumes "tokenPos r pid i = Some 57"
  shows "tokenPos (fst (join_handler r nm c newId)) pid i = Some 57"
proof (cases "gameStarted r")
  case True
  with assms show ?thesis by (simp add: join_handler_def)
next
  case False
  show ?thesis
    by (rule tokenPos_append[OF assms]) (simp add: join_handler_def Let_def False)
qed

lemma ready_handler_keeps_finished:
  assumes "tokenPos r pid i = Some 57"
  shows "tokenPos (fst (ready_handler r sender)) pid i = Some 57"
proof (rule tokenPos_kept[OF _ _ assms])
  show "length (players (fst (ready_handler r sender))) = length (players r)"
    by (simp add: ready_handler_def Let_def)
next
  fix j assume "j < length (players r)"
  then show "playerId (players (fst (ready_handler r sender)) ! j) = playerId (players r ! j) \<and>
        length (positions (players (fst (ready_handler r sender)) ! j))
          = length (positions (players r ! j)) \<and>
        (\<forall>k < length (positions (players r ! j)).
           positions (players r ! j) ! k = 57 \<longrightarrow>
           positions (players (fst (ready_handler r sender)) ! j) ! k = 57)"
    by (simp add: ready_handler_def Let_def)
qed

lemma start_handler_players: "players (fst (start_handler r sender)) = players r"
  by (simp add: start_handler_def)

lemma find_filter_other:
  "a \<noteq> b \<Longrightarrow> find (\<lambda>p. f p = a) (filter (\<lambda>p. f p \<noteq> b) xs) = find (\<lambda>p. f p = a) xs"
  by (induction xs) auto

lemma find_filter_self: "find (\<lambda>p. f p = a) (filter (\<lambda>p. f p \<noteq> a) xs) = None"
  by (induction xs) auto

lemma close_handler_players:
  "players (fst (close_handler r sender)) = filter (\<lambda>p. playerId p \<noteq> sender) (players r)"
  by (simp add: close_handler_def Let_def)

lemma close_handler_departed: "tokenPos (fst (close_handler r pid)) pid i = None"
  by (simp add: tokenPos_def close_handler_players find_filter_self)

lemma close_handler_keeps_finished:
  assumes "pid \<noteq> sender"
  shows "tokenPos (fst (close_handler r sender)) pid i = tokenPos r pid i"
  using assms by (simp add: tokenPos_def close_handler_players find_filter_other)


text \<open>
  Claim C9, as the code has it. In a reachable room, a token at 57 is still at 57
  after any request, unless its player is removed by the request (the close handler is
  the one place that removes players). Such a token is not enumerated by
  \<^verbatim>\<open>computeMovableTokens\<close> for any roll of 1 or more, and the capture test is false
  for it. Whether it is enumerated for the stored roll 0 is not part of this statement
  (see the counterexample below).
\<close>

theorem finished_token_stays:
  assumes "reachable r" and "valid_event r ev" and "on_event r ev = Inr (r', outs)"
    and "tokenPos r pid i = Some 57"
  shows "(tokenPos r' pid i = Some 57 \<or> (ev = Close pid \<and> tokenPos r' pid i = None)) \<and>
         (\<forall>p roll k. 1 \<le> roll \<and> nth_opt (positions p) k = Some 57
            \<longrightarrow> k \<notin> set (computeMovableTokens r p roll)) \<and>
         (\<forall>mover newPos opponent. \<not> isCaptured mover newPos opponent 57)"
proof (intro conjI allI impI)
  note inv = reachable_room_inv[OF assms(1)]
  note tp = assms(4)
  show "tokenPos r' pid i = Some 57 \<or> (ev = Close pid \<and> tokenPos r' pid i = None)"
  proof (cases ev)
    case (Join nm c newId)
    with assms(3) have r': "r' = fst (join_handler r nm c newId)" by simp
    show ?thesis unfolding r' using join_handler_keeps_finished[OF tp] by simp
  next
    case (Ready sender)
    with assms(3) have r': "r' = fst (ready_handler r sender)" by simp
    show ?thesis unfolding r' using ready_handler_keeps_finished[OF tp] by simp
  next
    case (Start sender)
    with assms(3) have r': "r' = fst (start_handler r sender)" by simp
    show ?thesis unfolding r' using tp
      by (simp add: tokenPos_same_players[OF start_handler_players])
  next
    case (Roll sender die)
    with assms(3) have "roll_handler r sender die = Inr (r', outs)" by simp
    then have "players r' = players r" by (rule roll_handler_players)
    from tokenPos_same_players[OF this] tp show ?thesis by simp
  next
    case (Move sender tokenIndex)
    with assms(3) have "move_handler r sender tokenIndex = Inr (r', outs)" by simp
    from move_handler_keeps_finished[OF inv this tp] show ?thesis by simp
  next
    case (Close sender)
    with assms(3) have r': "r' = fst (close_handler r sender)" by simp
    show ?thesis
    proof (cases "sender = pid")
      case True
      with Close r' show ?thesis by (simp add: close_handler_departed)
    next
      case False
      then have "pid \<noteq> sender" by simp
      from close_handler_keeps_finished[OF this] tp r' show ?thesis by simp
    qed
  qed
next
  fix p :: player and roll k :: int
  assume a: "1 \<le> roll \<and> nth_opt (positions p) k = Some 57"
  then have "positions p ! nat k = 57" by (auto dest: nth_opt_SomeD)
  moreover have "\<not> tokenMovable 57 roll" using a by (simp add: tokenMovable_def)
  ultimately show "k \<notin> set (computeMovableTokens r p roll)"
    by (simp add: computeMovableTokens_iff)
next
  fix mover opponent :: player and newPos :: int
  show "\<not> isCaptured mover newPos opponent 57" by (rule not_isCaptured_finished)
qed

theorem finished_token_stays_witness:
  "reachable finished_token_room \<and> valid_event finished_token_room (Move ''a'' 0) \<and>
   on_event finished_token_room (Move ''a'' 0) =
     Inr (finished_token_room,
          [Broadcast (State_update ''a'' [57, - 1, - 1, - 1] 0 0 False True), Broadcast (Turn ''a'')]) \<and>
   tokenPos finished_token_room ''a'' 0 = Some 57 \<and>
   0 \<notin> set (computeMovableTokens finished_token_room
              (alice\<lparr>positions := [57, - 1, - 1, - 1]\<rparr>) 1)"
proof -
  let ?outs = "[Broadcast (State_update ''a'' [57, - 1, - 1, - 1] 0 0 False True), Broadcast (Turn ''a'')]"
  have v: "valid_event finished_token_room (Move ''a'' 0)" by simp
  have s: "on_event finished_token_room (Move ''a'' 0) = Inr (finished_token_room, ?outs)"
    by code_simp
  have t: "tokenPos finished_token_room ''a'' 0 = Some 57"
    by code_simp
  have n: "nth_opt (positions (alice\<lparr>positions := [57, - 1, - 1, - 1]\<rparr>)) 0 = Some 57"
    by code_simp
  from finished_token_stays[OF reachable_finished_token_room v s t] n
  have "0 \<notin> set (computeMovableTokens finished_token_room (alice\<lparr>positions := [57, - 1, - 1, - 1]\<rparr>) 1)"
    by (metis order_refl)
  with reachable_finished_token_room v s t show ?thesis by blast
qed

text \<open>
  The claim as written fails in its second half: with no roll outstanding the stored
  roll is 0, the finished token is enumerated as movable, and a move request for it is
  executed (it stays at 57, is reported as finished again and keeps the turn).
\<close>

theorem finished_token_movable_counterexample:
  "reachable finished_token_room \<and> currentRoll finished_token_room = 0 \<and>
   tokenPos finished_token_room ''a'' 0 = Some 57 \<and>
   computeMovableTokens finished_token_room (players finished_token_room ! 0)
     (currentRoll finished_token_room) = [0] \<and>
   move_handler finished_token_room ''a'' 0 =
     Inr (finished_token_room,
          [Broadcast (State_update ''a'' [57, - 1, - 1, - 1] 0 0 False True), Broadcast (Turn ''a'')])"
proof -
  have "currentRoll finished_token_room = 0 \<and>
   tokenPos finished_token_room ''a'' 0 = Some 57 \<and>
   computeMovableTokens finished_token_room (players finished_token_room ! 0)
     (currentRoll finished_token_room) = [0] \<and>
   move_handler finished_token_room ''a'' 0 =
     Inr (finished_token_room,
          [Broadcast (State_update ''a'' [57, - 1, - 1, - 1] 0 0 False True), Broadcast (Turn ''a'')])"
    by code_simp
  with reachable_finished_token_room show ?thesis by blast
qed

section \<open>Joining: colors and capacity\<close>

lemma chooseColor_cases:
  "chooseColor taken c =
     (if c = None \<or> c = Some [] \<or> c \<in> set taken
      then (if Some ''red'' \<notin> set taken then Some ''red''
            else if Some ''green'' \<notin> set taken then Some ''green''
            else if Some ''yellow'' \<notin> set taken then Some ''yellow''
            else if Some ''blue'' \<notin> set taken then Some ''blue''
            else None)
      else c)"
  by (simp add: chooseColor_def colorOrder_def)

text \<open>
  Claim C2, as the code has it. The join handler has no capacity test and no
  \<^verbatim>\<open>RoomFull\<close> error: a join into a room that has not started appends one player,
  answers \<^verbatim>\<open>joined\<close> and broadcasts the roster. When the requested color is empty or
  taken and one of red, green, yellow, blue is unused, the first unused color in that
  order is assigned; a non-empty color that nobody has is kept as requested.
\<close>

theorem join_color_resolution:
  assumes "\<not> gameStarted r"
  shows "\<exists>p. join_handler r nm c newId =
              (r\<lparr>players := players r @ [p]\<rparr>,
               [Send (Joined newId (color p) (player_views (players r @ [p]))),
                Broadcast (Player_list (player_views (players r @ [p])))]) \<and>
             playerId p = newId \<and> ready p = False \<and> positions p = [- 1, - 1, - 1, - 1] \<and>
             ((c = None \<or> c = Some [] \<or> c \<in> set (map color (players r))) \<and>
              (\<exists>k \<in> set colorOrder. Some k \<notin> set (map color (players r)))
                \<longrightarrow> color p =
                     (if Some ''red'' \<notin> set (map color (players r)) then Some ''red''
                      else if Some ''green'' \<notin> set (map color (players r)) then Some ''green''
                      else if Some ''yellow'' \<notin> set (map color (players r)) then Some ''yellow''
                      else Some ''blue'')) \<and>
             (\<not> (c = None \<or> c = Some [] \<or> c \<in> set (map color (players r))) \<longrightarrow> color p = c)"
proof -
  let ?taken = "map color (players r)"
  let ?p = "\<lparr>playerId = newId,
             name = (case nm of None \<Rightarrow> ''Player '' @ show_nat (length (players r) + 1)
                     | Some s \<Rightarrow> if s = [] then ''Player '' @ show_nat (length (players r) + 1) else s),
             color = chooseColor ?taken c, ready = False, positions = [- 1, - 1, - 1, - 1]\<rparr>"
  have j: "join_handler r nm c newId =
      (r\<lparr>players := players r @ [?p]\<rparr>,
       [Send (Joined newId (color ?p) (player_views (players r @ [?p]))),
        Broadcast (Player_list (player_views (players r @ [?p])))])"
    using assms by (simp add: join_handler_def Let_def)
  have c1: "color ?p =
       (if Some ''red'' \<notin> set ?taken then Some ''red''
        else if Some ''green'' \<notin> set ?taken then Some ''green''
        else if Some ''yellow'' \<notin> set ?taken then Some ''yellow''
        else Some ''blue'')"
    if "c = None \<or> c = Some [] \<or> c \<in> set ?taken" "\<exists>k \<in> set colorOrder. Some k \<notin> set ?taken"
    using that unfolding chooseColor_cases by (auto simp: colorOrder_def)
  have c2: "color ?p = c" if "\<not> (c = None \<or> c = Some [] \<or> c \<in> set ?taken)"
    using that unfolding chooseColor_cases by simp
  show ?thesis
    by (rule exI[of _ ?p]) (use j c1 c2 in simp)
qed

theorem join_color_resolution_witness:
  "\<not> gameStarted waiting_room \<and> Some ''red'' \<in> set (map color (players waiting_room)) \<and>
   (\<exists>k \<in> set colorOrder. Some k \<notin> set (map color (players waiting_room))) \<and>
   (\<exists>p. fst (join_handler waiting_room (Some ''B'') (Some ''red'') ''b'') =
           waiting_room\<lparr>players := players waiting_room @ [p]\<rparr> \<and>
         playerId p = ''b'' \<and> color p = Some ''green'')"
proof -
  have h: "\<not> gameStarted waiting_room" by (simp add: waiting_room_def)
  have t: "Some ''red'' \<in> set (map color (players waiting_room))"
    "Some ''green'' \<notin> set (map color (players waiting_room))"
    "\<exists>k \<in> set colorOrder. Some k \<notin> set (map color (players waiting_room))"
    by code_simp+
  from join_color_resolution[OF h, of "Some ''B''" "Some ''red''" "''b''"] t
  have "\<exists>p. fst (join_handler waiting_room (Some ''B'') (Some ''red'') ''b'') =
           waiting_room\<lparr>players := players waiting_room @ [p]\<rparr> \<and>
         playerId p = ''b'' \<and> color p = Some ''green''"
    by auto
  with h t show ?thesis by blast
qed

text \<open>
  The claim as written fails: a join into a room whose four colors are taken is not
  refused. A fifth player is appended, and \<^verbatim>\<open>find\<close> has no color for it.
\<close>

theorem join_full_room_counterexample:
  "reachable full_room \<and> map color (players full_room) = [Some ''red'', Some ''green'', Some ''yellow'', Some ''blue''] \<and>
   join_handler full_room (Some ''E'') (Some ''red'') ''e'' =
     (full_room\<lparr>players := players full_room @
        [\<lparr>playerId = ''e'', name = ''E'', color = None, ready = False,
          positions = [- 1, - 1, - 1, - 1]\<rparr>]\<rparr>,
      [Send (Joined ''e'' None
         [(''a'', ''A'', Some ''red'', False), (''b'', ''B'', Some ''green'', False),
          (''c'', ''C'', Some ''yellow'', False), (''d'', ''D'', Some ''blue'', False),
          (''e'', ''E'', None, False)]),
       Broadcast (Player_list
         [(''a'', ''A'', Some ''red'', False), (''b'', ''B'', Some ''green'', False),
          (''c'', ''C'', Some ''yellow'', False), (''d'', ''D'', Some ''blue'', False),
          (''e'', ''E'', None, False)])])"
proof -
  have "map color (players full_room) = [Some ''red'', Some ''green'', Some ''yellow'', Some ''blue''] \<and>
   join_handler full_room (Some ''E'') (Some ''red'') ''e'' =
     (full_room\<lparr>players := players full_room @
        [\<lparr>playerId = ''e'', name = ''E'', color = None, ready = False,
          positions = [- 1, - 1, - 1, - 1]\<rparr>]\<rparr>,
      [Send (Joined ''e'' None
         [(''a'', ''A'', Some ''red'', False), (''b'', ''B'', Some ''green'', False),
          (''c'', ''C'', Some ''yellow'', False), (''d'', ''D'', Some ''blue'', False),
          (''e'', ''E'', None, False)]),
       Broadcast (Player_list
         [(''a'', ''A'', Some ''red'', False), (''b'', ''B'', Some ''green'', False),
          (''c'', ''C'', Some ''yellow'', False), (''d'', ''D'', Some ''blue'', False),
          (''e'', ''E'', None, False)])])"
    by code_simp
  with reachable_full_room show ?thesis by blast
qed

section \<open>Rolling before the game has started\<close>

lemma performMove_started:
  "performMove (r\<lparr>gameStarted := b\<rparr>) pi tokenIndex roll =
     map_prod (\<lambda>r'. r'\<lparr>gameStarted := b\<rparr>) id (performMove r pi tokenIndex roll)"
  by (simp add: performMove_def Let_def)

lemma roll_handler_started:
  "roll_handler (r\<lparr>gameStarted := b\<rparr>) sender die =
     map_sum id (map_prod (\<lambda>r'. r'\<lparr>gameStarted := b\<rparr>) id) (roll_handler r sender die)"
proof (cases "nth_opt (players r) (turnIndex r)")
  case None
  then show ?thesis by (simp add: roll_handler_def)
next
  case (Some p)
  then have Some': "nth_opt (players (r\<lparr>gameStarted := b\<rparr>)) (turnIndex (r\<lparr>gameStarted := b\<rparr>)) = Some p"
    by simp
  show ?thesis
  proof (cases "playerId p = sender")
    case False
    with Some show ?thesis by (simp add: roll_handler_def)
  next
    case True
    show ?thesis
      unfolding roll_handler_on_turn[OF Some True] roll_handler_on_turn[OF Some' True]
      by (simp add: Let_def computeMovableTokens_def)
  qed
qed

lemma move_handler_started:
  "move_handler (r\<lparr>gameStarted := b\<rparr>) sender tokenIndex =
     map_sum id (map_prod (\<lambda>r'. r'\<lparr>gameStarted := b\<rparr>) id) (move_handler r sender tokenIndex)"
proof (cases "nth_opt (players r) (turnIndex r)")
  case None
  then show ?thesis by (simp add: move_handler_def)
next
  case (Some p)
  let ?r = "r\<lparr>gameStarted := b\<rparr>"
  from Some have Some': "nth_opt (players ?r) (turnIndex ?r) = Some p"
    by simp
  show ?thesis
  proof (cases "playerId p = sender \<and> tokenIndex \<in> set (computeMovableTokens r p (currentRoll r))")
    case False
    then have "playerId p \<noteq> sender \<or> tokenIndex \<notin> set (computeMovableTokens ?r p (currentRoll ?r))"
      by (simp add: computeMovableTokens_def)
    from move_handler_dropped[OF Some' this] move_handler_dropped[OF Some, of sender tokenIndex] False
    show ?thesis by auto
  next
    case True
    obtain r1 captured finishedNow where
      pm: "performMove r (nat (turnIndex r)) tokenIndex (currentRoll r) = (r1, captured, finishedNow)"
      by (cases "performMove r (nat (turnIndex r)) tokenIndex (currentRoll r)") auto
    then have pm': "performMove ?r (nat (turnIndex ?r)) tokenIndex (currentRoll ?r)
        = (r1\<lparr>gameStarted := b\<rparr>, captured, finishedNow)"
      by (simp add: performMove_started)
    from True have t1: "playerId p = sender"
      and t2: "tokenIndex \<in> set (computeMovableTokens r p (currentRoll r))"
      and t2': "tokenIndex \<in> set (computeMovableTokens ?r p (currentRoll ?r))"
      by (simp_all add: computeMovableTokens_def)
    show ?thesis
      unfolding move_handler_on_turn[OF Some t1 t2 pm] move_handler_on_turn[OF Some' t1 t2' pm']
      by (simp add: Let_def)
  qed
qed

text \<open>
  Claim C10. In a room that has not started, a roll request of the player at
  \<^verbatim>\<open>players[turnIndex]\<close> is accepted: the die value is stored in \<^verbatim>\<open>currentRoll\<close>,
  \<^verbatim>\<open>consecutiveSixes\<close> is updated and \<^verbatim>\<open>roll_result\<close> is broadcast first. Neither the
  roll handler nor the move handler reads \<^verbatim>\<open>gameStarted\<close>: with the flag set to any
  value they return the same result, up to that flag.
\<close>

theorem roll_before_start:
  assumes "\<not> gameStarted r" and "nth_opt (players r) (turnIndex r) = Some p"
    and "playerId p = sender" and "1 \<le> die" and "die \<le> 6"
  shows "(\<exists>r' rest.
            roll_handler r sender die =
              Inr (r', Broadcast (Roll_result sender die (computeMovableTokens r p die)) # rest) \<and>
            currentRoll r' = die \<and>
            consecutiveSixes r' =
              (if die = 6 \<and> consecutiveSixes r + 1 < 3 then consecutiveSixes r + 1 else 0) \<and>
            \<not> gameStarted r') \<and>
         (\<forall>b. roll_handler (r\<lparr>gameStarted := b\<rparr>) sender die =
                map_sum id (map_prod (\<lambda>r'. r'\<lparr>gameStarted := b\<rparr>) id) (roll_handler r sender die)) \<and>
         (\<forall>b tokenIndex. move_handler (r\<lparr>gameStarted := b\<rparr>) sender tokenIndex =
                map_sum id (map_prod (\<lambda>r'. r'\<lparr>gameStarted := b\<rparr>) id)
                  (move_handler r sender tokenIndex))"
proof (intro conjI allI)
  show "\<exists>r' rest.
            roll_handler r sender die =
              Inr (r', Broadcast (Roll_result sender die (computeMovableTokens r p die)) # rest) \<and>
            currentRoll r' = die \<and>
            consecutiveSixes r' =
              (if die = 6 \<and> consecutiveSixes r + 1 < 3 then consecutiveSixes r + 1 else 0) \<and>
            \<not> gameStarted r'"
    unfolding roll_handler_on_turn[OF assms(2,3)] Let_def
    using assms(1) by (cases "die = 6 \<and> 3 \<le> consecutiveSixes r + 1 \<or> computeMovableTokens r p die = []") auto
next
  fix b
  show "roll_handler (r\<lparr>gameStarted := b\<rparr>) sender die =
      map_sum id (map_prod (\<lambda>r'. r'\<lparr>gameStarted := b\<rparr>) id) (roll_handler r sender die)"
    by (rule roll_handler_started)
next
  fix b tokenIndex
  show "move_handler (r\<lparr>gameStarted := b\<rparr>) sender tokenIndex =
      map_sum id (map_prod (\<lambda>r'. r'\<lparr>gameStarted := b\<rparr>) id) (move_handler r sender tokenIndex)"
    by (rule move_handler_started)
qed

theorem roll_before_start_witness:
  "reachable waiting_room \<and> \<not> gameStarted waiting_room \<and>
   nth_opt (players waiting_room) (turnIndex waiting_room) = Some (alice\<lparr>ready := False\<rparr>) \<and>
   (\<exists>r' rest. roll_handler waiting_room ''a'' 6 =
       Inr (r', Broadcast (Roll_result ''a'' 6 [0, 1, 2, 3]) # rest) \<and>
      currentRoll r' = 6 \<and> consecutiveSixes r' = 1 \<and> \<not> gameStarted r')"
proof -
  note r = reachable_waiting_room
  have h1: "\<not> gameStarted waiting_room" by (simp add: waiting_room_def)
  have h2: "nth_opt (players waiting_room) (turnIndex waiting_room) = Some (alice\<lparr>ready := False\<rparr>)"
    by (simp add: waiting_room_def nth_opt_def)
  have h3: "playerId (alice\<lparr>ready := False\<rparr>) = ''a''" by (simp add: alice_def)
  have m: "computeMovableTokens waiting_room (alice\<lparr>ready := False\<rparr>) 6 = [0, 1, 2, 3]"
    by code_simp
  have c: "consecutiveSixes waiting_room = 0" by (simp add: waiting_room_def)
  from roll_before_start[OF h1 h2 h3, of 6]
  have "\<exists>r' rest. roll_handler waiting_room ''a'' 6 =
       Inr (r', Broadcast (Roll_result ''a'' 6 [0, 1, 2, 3]) # rest) \<and>
      currentRoll r' = 6 \<and> consecutiveSixes r' = 1 \<and> \<not> gameStarted r'"
    by (simp add: m c)
  with r h1 h2 show ?thesis by blast
qed

end
